theory Spec2Isabelle
  imports Main
begin

section \<open>The syntax tree\<close>

text \<open>
  The plugin works on the tree that postcss hands to \<^verbatim>\<open>Once\<close>. A node is a rule, an
  at-rule, a declaration or a comment. A rule carries its selector list and its children.
  An at-rule carries its name, its parameters and its \<^verbatim>\<open>nodes\<close>, which postcss leaves
  \<^verbatim>\<open>undefined\<close> for an at-rule written without a block (\<^verbatim>\<open>@import\<close>, \<^verbatim>\<open>@charset\<close>,
  \<^verbatim>\<open>@layer a;\<close>): that is the \<open>None\<close> below. The source tests \<^verbatim>\<open>node.nodes &&\<close> for
  this reason.
\<close>

datatype node =
    Rule "string list" "node list"
  | AtRule string string "node list option"
  | Decl string string
  | Comment string

datatype ntype = TRule | TAtRule | TDecl | TComment

fun n_type :: "node \<Rightarrow> ntype" where
  "n_type (Rule _ _) = TRule"
| "n_type (AtRule _ _ _) = TAtRule"
| "n_type (Decl _ _) = TDecl"
| "n_type (Comment _) = TComment"

text \<open>\<^verbatim>\<open>node.name\<close> and \<^verbatim>\<open>node.params\<close>: \<^verbatim>\<open>undefined\<close> (\<open>None\<close>) on anything but an at-rule.\<close>

fun n_name :: "node \<Rightarrow> string option" where
  "n_name (AtRule n _ _) = Some n"
| "n_name _ = None"

fun n_params :: "node \<Rightarrow> string option" where
  "n_params (AtRule _ q _) = Some q"
| "n_params _ = None"

text \<open>\<^verbatim>\<open>node.nodes\<close>: an array on a rule, an array or \<^verbatim>\<open>undefined\<close> on an at-rule,
  \<^verbatim>\<open>undefined\<close> on a declaration or comment.\<close>

fun n_nodes :: "node \<Rightarrow> node list option" where
  "n_nodes (Rule _ ch) = Some ch"
| "n_nodes (AtRule _ _ b) = b"
| "n_nodes _ = None"

text \<open>The children that \<^verbatim>\<open>node.nodes.forEach\<close> runs over.\<close>

definition children :: "node \<Rightarrow> node list" where
  "children n = (case n_nodes n of None \<Rightarrow> [] | Some ch \<Rightarrow> ch)"

text \<open>Assigning the \<^verbatim>\<open>nodes\<close> property, as \<^verbatim>\<open>clone({ nodes: [] })\<close> and \<^verbatim>\<open>append\<close> do.\<close>

fun withNodes :: "node \<Rightarrow> node list \<Rightarrow> node" where
  "withNodes (Rule s _) ns = Rule s ns"
| "withNodes (AtRule n q _) ns = AtRule n q (Some ns)"
| "withNodes (Decl p v) ns = Decl p v"
| "withNodes (Comment t) ns = Comment t"

text \<open>\<^verbatim>\<open>parentAtRule.clone({ nodes: [] })\<close>: the at-rule emptied of its children.\<close>

definition shell :: "node \<Rightarrow> node" where
  "shell p = withNodes p []"

text \<open>\<^verbatim>\<open>parent.append(child)\<close>: postcss gives an at-rule without a block an empty
  \<^verbatim>\<open>nodes\<close> array first, then pushes the child.\<close>

definition appendChild :: "node \<Rightarrow> node \<Rightarrow> node" where
  "appendChild parent child = withNodes parent (children parent @ [child])"

section \<open>Size of a node\<close>

text \<open>
  \<^verbatim>\<open>Buffer.byteLength(node.toString(), "utf8")\<close> is computed by postcss and Node, which are
  not part of the repository. The partitioner below takes the size function as its
  parameter \<open>sz\<close>, so that every theorem about it holds for every serializer.

  For concrete runs we instantiate \<open>sz\<close> with \<open>cssBytes\<close>: the length of what postcss's
  stringifier prints for a node parsed from minified ASCII source, where every whitespace
  raw is empty and no block ends in a semicolon. A child is followed by a semicolon unless
  it is the last child that is not a comment; rules and comments ignore the semicolon.
  \<open>cssBytes\<close> covers the sources used below and no more: an at-rule with parameters is
  written with one space after its name (\<^verbatim>\<open>@media print\<close>; postcss prints what the source
  had there, which is nothing for \<^verbatim>\<open>@media(min-width:1px)\<close>), and no declaration is marked
  \<^verbatim>\<open>!important\<close>.
\<close>

fun joinComma :: "string list \<Rightarrow> string" where
  "joinComma [] = []"
| "joinComma [s] = s"
| "joinComma (s # t # ss) = s @ '','' @ joinComma (t # ss)"

text \<open>The stringifier's \<^verbatim>\<open>last\<close>: the index of the last child, moved left over trailing
  comments but not below 0.\<close>

fun lastIndex :: "node list \<Rightarrow> nat" where
  "lastIndex [] = 0"
| "lastIndex (c # cs) =
     (if list_all (\<lambda>d. n_type d = TComment) cs then 0 else Suc (lastIndex cs))"

definition atHead :: "string \<Rightarrow> string \<Rightarrow> string" where
  "atHead n q = ''@'' @ n @ (if q = [] then [] else '' '' @ q)"

fun stringify :: "bool \<Rightarrow> node \<Rightarrow> string"
  and body :: "nat \<Rightarrow> nat \<Rightarrow> node list \<Rightarrow> string" where
  "stringify semi (Decl p v) = p @ '':'' @ v @ (if semi then '';'' else [])"
| "stringify semi (Comment t) = ''/*'' @ t @ ''*/''"
| "stringify semi (Rule sels ch) = joinComma sels @ ''{'' @ body (lastIndex ch) 0 ch @ ''}''"
| "stringify semi (AtRule n q None) = atHead n q @ (if semi then '';'' else [])"
| "stringify semi (AtRule n q (Some ch)) = atHead n q @ ''{'' @ body (lastIndex ch) 0 ch @ ''}''"
| "body l i [] = []"
| "body l i (c # cs) = stringify (i \<noteq> l) c @ body l (Suc i) cs"

definition cssBytes :: "node \<Rightarrow> nat" where
  "cssBytes n = length (stringify False n)"

section \<open>The chunk builder\<close>

text \<open>
  The closure state of \<^verbatim>\<open>Once\<close>: the finished chunks, the chunk being filled (the children
  of its root), its estimated size, and the warnings reported so far. A postcss warning
  records the node it is about and its text.
\<close>

record warning =
  w_node :: node
  w_text :: string

record state =
  finalChunks :: "node list list"
  currentChunk :: "node list"
  currentChunkSize :: nat
  warnings :: "warning list"

definition initState :: state where
  "initState = \<lparr>finalChunks = [], currentChunk = [], currentChunkSize = 0, warnings = []\<rparr>"

definition startNewChunk :: "state \<Rightarrow> state" where
  "startNewChunk st =
     st\<lparr>finalChunks := (if currentChunk st \<noteq> [] then finalChunks st @ [currentChunk st]
                         else finalChunks st),
        currentChunk := [],
        currentChunkSize := 0\<rparr>"

section \<open>The partitioner\<close>

datatype error = TypeError

text \<open>Decimal digits of a number, as a template literal prints it.\<close>

fun showNat :: "nat \<Rightarrow> string" where
  "showNat n =
     (if n < 10 then [char_of (48 + n)]
      else showNat (n div 10) @ [char_of (48 + n mod 10)])"

declare showNat.simps [simp del]

text \<open>A template literal prints \<^verbatim>\<open>undefined\<close> as the word.\<close>

definition jsString :: "string option \<Rightarrow> string" where
  "jsString v = (case v of None \<Rightarrow> ''undefined'' | Some s \<Rightarrow> s)"

text \<open>\<^verbatim>\<open>node.selectors[0]\<close>; reading index 0 of an empty array gives \<^verbatim>\<open>undefined\<close>.\<close>

fun firstSelector :: "node \<Rightarrow> string option" where
  "firstSelector (Rule (s # _) _) = Some s"
| "firstSelector _ = None"

definition nodeIdentifier :: "node \<Rightarrow> string" where
  "nodeIdentifier node =
     (if n_type node = TRule
      then ''starting with selector '' @ [CHR 0x27] @ jsString (firstSelector node) @ [CHR 0x27]
      else ''@-rule '' @ [CHR 0x27] @ ''@'' @ jsString (n_name node) @ [CHR 0x27])"

definition warningText :: "nat \<Rightarrow> nat \<Rightarrow> node \<Rightarrow> string" where
  "warningText nodeSize sizeLimit node =
     nodeIdentifier node @ '' has an estimated size of '' @ showNat nodeSize
       @ '' bytes, exceeding the '' @ showNat sizeLimit @ '' byte limit and cannot be split.''"

definition oversizeWarning :: "(node \<Rightarrow> nat) \<Rightarrow> nat \<Rightarrow> node \<Rightarrow> warning" where
  "oversizeWarning sz sizeLimit node =
     \<lparr>w_node = node, w_text = warningText (sz node) sizeLimit node\<rparr>"

text \<open>Lines 35 to 44: \<^verbatim>\<open>if (size && nodeSize > size) node.warn(...)\<close>.\<close>

definition warn :: "(node \<Rightarrow> nat) \<Rightarrow> nat \<Rightarrow> node \<Rightarrow> state \<Rightarrow> state" where
  "warn sz sizeLimit node st =
     (if sizeLimit \<noteq> 0 \<and> sz node > sizeLimit
      then st\<lparr>warnings := warnings st @ [oversizeWarning sz sizeLimit node]\<rparr>
      else st)"

definition nonSplittableAtRules :: "string list" where
  "nonSplittableAtRules = [''keyframes'', ''font-face'', ''page'', ''counter-style'']"

text \<open>\<^verbatim>\<open>nonSplittableAtRules.includes(node.name)\<close>.\<close>

definition nonSplittable :: "node \<Rightarrow> bool" where
  "nonSplittable node =
     (case n_name node of None \<Rightarrow> False | Some n \<Rightarrow> n \<in> set nonSplittableAtRules)"

text \<open>\<^verbatim>\<open>node.nodes && node.nodes.length > 0\<close>.\<close>

definition hasNodes :: "node \<Rightarrow> bool" where
  "hasNodes n = (case n_nodes n of None \<Rightarrow> False | Some ch \<Rightarrow> ch \<noteq> [])"

text \<open>Lines 96 to 100.\<close>

definition hasActualContent :: "node \<Rightarrow> bool" where
  "hasActualContent node =
     list_ex (\<lambda>child. n_type child = TRule \<or> (n_type child = TAtRule \<and> hasNodes child))
       (children node)"

text \<open>Lines 73 to 84: a fresh shell for every at-rule of the chain, each inside the one
  before, and the node in the deepest.\<close>

fun wrapShells :: "node list \<Rightarrow> node \<Rightarrow> node" where
  "wrapShells [] node = node"
| "wrapShells (p # ps) node = appendChild (shell p) (wrapShells ps node)"

text \<open>The bytes lines 75 to 78 add for those shells.\<close>

definition shellBytes :: "(node \<Rightarrow> nat) \<Rightarrow> node list \<Rightarrow> nat" where
  "shellBytes sz ps = sum_list (map (\<lambda>p. sz (shell p)) ps)"

text \<open>Lines 136 to 141: the last node is an at-rule of the same name and parameters.\<close>

definition sameAtRule :: "node \<Rightarrow> node \<Rightarrow> bool" where
  "sameAtRule lastNode parentAtRule =
     (n_type lastNode = TAtRule \<and> n_name lastNode = n_name parentAtRule
        \<and> n_params lastNode = n_params parentAtRule)"

text \<open>
  Lines 128 to 162. \<open>rebuild sz chain node nodes\<close> follows the loop from a current parent
  whose \<^verbatim>\<open>nodes\<close> property is \<open>nodes\<close>, and returns the parent's new children together with
  the bytes of the shells it created. At each at-rule of the chain the loop reads
  \<^verbatim>\<open>currentParent.nodes.length\<close>: when the current parent is a reused at-rule without a
  block, \<^verbatim>\<open>nodes\<close> is \<^verbatim>\<open>undefined\<close> and the read throws a TypeError. After the loop the
  node is appended to the current parent.
\<close>

fun rebuild :: "(node \<Rightarrow> nat) \<Rightarrow> node list \<Rightarrow> node \<Rightarrow> node list option
    \<Rightarrow> error + (node list \<times> nat)" where
  "rebuild sz [] node None = Inr ([node], 0)"
| "rebuild sz [] node (Some ns) = Inr (ns @ [node], 0)"
| "rebuild sz (p # ps) node None = Inl TypeError"
| "rebuild sz (p # ps) node (Some ns) =
     (if ns \<noteq> [] \<and> sameAtRule (last ns) p
      then (case rebuild sz ps node (n_nodes (last ns)) of
              Inl e \<Rightarrow> Inl e
            | Inr (ch, k) \<Rightarrow> Inr (butlast ns @ [withNodes (last ns) ch], k))
      else (case rebuild sz ps node (Some []) of
              Inl e \<Rightarrow> Inl e
            | Inr (ch, k) \<Rightarrow> Inr (ns @ [withNodes (shell p) ch], sz (shell p) + k)))"

text \<open>Lines 126 to 168: the node goes into the current chunk, under the chain if there is
  one. \<^verbatim>\<open>parentShell\<close> is \<^verbatim>\<open>null\<close> in every call (line 171 passes none, line 116 passes
  its own on), so \<^verbatim>\<open>parentShell || currentChunk\<close> is the chunk root.\<close>

definition place :: "(node \<Rightarrow> nat) \<Rightarrow> node \<Rightarrow> node list \<Rightarrow> state \<Rightarrow> error + state" where
  "place sz node parentChain st =
     (if parentChain \<noteq> []
      then (case rebuild sz parentChain node (Some (currentChunk st)) of
              Inl e \<Rightarrow> Inl e
            | Inr (ns, k) \<Rightarrow>
                Inr (st\<lparr>currentChunk := ns,
                        currentChunkSize := currentChunkSize st + k + sz node\<rparr>))
      else Inr (st\<lparr>currentChunk := currentChunk st @ [node],
                   currentChunkSize := currentChunkSize st + sz node\<rparr>))"

text \<open>Lines 63 to 93: an at-rule of the fixed list, kept whole.\<close>

definition placeWhole :: "(node \<Rightarrow> nat) \<Rightarrow> node \<Rightarrow> node list \<Rightarrow> state \<Rightarrow> state" where
  "placeWhole sz node parentChain st =
     (let st1 = (if currentChunk st \<noteq> [] then startNewChunk st else st)
      in if parentChain \<noteq> []
         then st1\<lparr>currentChunk := currentChunk st1 @ [wrapShells parentChain node],
                  currentChunkSize := currentChunkSize st1 + shellBytes sz parentChain + sz node\<rparr>
         else st1\<lparr>currentChunk := currentChunk st1 @ [node],
                  currentChunkSize := currentChunkSize st1 + sz node\<rparr>)"

text \<open>Lines 102 to 111: an at-rule whose children hold no rule and no at-rule with
  children is appended to the chunk root. With \<^verbatim>\<open>parentShell\<close> \<^verbatim>\<open>null\<close>, the target
  \<^verbatim>\<open>parentShell && currentChunk.last ? currentChunk.last : currentChunk\<close> is the root.\<close>

definition placeOpaque :: "(node \<Rightarrow> nat) \<Rightarrow> node \<Rightarrow> state \<Rightarrow> state" where
  "placeOpaque sz node st =
     st\<lparr>currentChunk := currentChunk st @ [node],
        currentChunkSize := currentChunkSize st + sz node\<rparr>"

text \<open>Lines 121 to 124: a new chunk is started when the node would overflow the current
  one and the current one is not empty.\<close>

definition flushIfOverflow :: "(node \<Rightarrow> nat) \<Rightarrow> nat \<Rightarrow> node \<Rightarrow> state \<Rightarrow> state" where
  "flushIfOverflow sz sizeLimit node st =
     (if sizeLimit \<noteq> 0 \<and> currentChunkSize st + sz node > sizeLimit \<and> currentChunk st \<noteq> []
      then startNewChunk st else st)"

text \<open>Lines 49 to 55: the test that sends an at-rule to the branch that may split it.\<close>

definition overflowingAtRule :: "(node \<Rightarrow> nat) \<Rightarrow> nat \<Rightarrow> node \<Rightarrow> state \<Rightarrow> bool" where
  "overflowingAtRule sz sizeLimit node st =
     (n_type node = TAtRule \<and> hasNodes node \<and> sizeLimit \<noteq> 0
        \<and> currentChunkSize st + sz node > sizeLimit)"

text \<open>
  \<^verbatim>\<open>addNode\<close>, lines 30 to 169, and the \<^verbatim>\<open>forEach\<close> of lines 115 and 171. A clone is a deep
  copy, so it is the same value. An exception ends the whole run.
\<close>

function addNode :: "(node \<Rightarrow> nat) \<Rightarrow> nat \<Rightarrow> node \<Rightarrow> node list \<Rightarrow> state \<Rightarrow> error + state"
  and forEach :: "(node \<Rightarrow> nat) \<Rightarrow> nat \<Rightarrow> node list \<Rightarrow> node list \<Rightarrow> state \<Rightarrow> error + state"
  where
  "addNode sz sizeLimit node parentChain st =
     (let st1 = warn sz sizeLimit node st in
      if overflowingAtRule sz sizeLimit node st1 then
        if nonSplittable node then Inr (placeWhole sz node parentChain st1)
        else if \<not> hasActualContent node then Inr (placeOpaque sz node st1)
        else forEach sz sizeLimit (children node) (parentChain @ [node]) st1
      else
        place sz node parentChain (flushIfOverflow sz sizeLimit node st1))"
| "forEach sz sizeLimit [] parentChain st = Inr st"
| "forEach sz sizeLimit (child # rest) parentChain st =
     (case addNode sz sizeLimit child parentChain st of
        Inl e \<Rightarrow> Inl e
      | Inr st' \<Rightarrow> forEach sz sizeLimit rest parentChain st')"
  by pat_completeness auto

termination
proof (relation "measure (\<lambda>x. case x of
          Inl (sz, sizeLimit, node, parentChain, st) \<Rightarrow> 2 * size node + 1
        | Inr (sz, sizeLimit, ns, parentChain, st) \<Rightarrow> 2 * size_list size ns)", goal_cases)
  case 1
  show ?case by simp
next
  case (2 sz sizeLimit node parentChain st x)
  have "size_list size (children node) \<le> size node"
    by (cases node) (auto simp: children_def split: option.splits)
  then show ?case by simp
next
  case 3
  show ?case by simp
next
  case 4
  show ?case by simp
qed

declare addNode.simps [simp del]

section \<open>The plugin\<close>

text \<open>Line 5: the option \<^verbatim>\<open>size\<close>, 400 KB when the caller gives none.\<close>

definition sizeOption :: "nat option \<Rightarrow> nat" where
  "sizeOption opt = (case opt of None \<Rightarrow> 400 * 1024 | Some n \<Rightarrow> n)"

text \<open>
  \<^verbatim>\<open>Once\<close>, lines 10 to 183: every top-level node is added with an empty chain, the last
  chunk is flushed, the chunks and warnings are handed to the caller, and line 182 removes
  every child from the source root. An exception leaves \<^verbatim>\<open>Once\<close> before any of that.
\<close>

record result =
  chunks :: "node list list"
  reported :: "warning list"
  root :: "node list"

definition removeAll_root :: "node list \<Rightarrow> node list" where
  "removeAll_root nodes = []"

definition Once :: "(node \<Rightarrow> nat) \<Rightarrow> nat \<Rightarrow> node list \<Rightarrow> error + result" where
  "Once sz sizeLimit nodes =
     (case forEach sz sizeLimit nodes [] initState of
        Inl e \<Rightarrow> Inl e
      | Inr st \<Rightarrow>
          Inr \<lparr>chunks = finalChunks (startNewChunk st),
               reported = warnings st,
               root = removeAll_root nodes\<rparr>)"

section \<open>The parsed tree as objects\<close>

text \<open>
  Whether the run changes the tree it was given depends on which object each \<^verbatim>\<open>append\<close>
  receives, and the values above cannot tell a node from its clone. Here every node of the
  parsed tree is an object with an identity, and the source root's children are part of the
  state.
\<close>

datatype obj =
    ORule nat "string list" "obj list"
  | OAtRule nat string string "obj list option"
  | ODecl nat string string
  | OComment nat string

fun oid :: "obj \<Rightarrow> nat" where
  "oid (ORule i _ _) = i"
| "oid (OAtRule i _ _ _) = i"
| "oid (ODecl i _ _) = i"
| "oid (OComment i _) = i"

text \<open>The node an object stands for, and the objects \<^verbatim>\<open>node.nodes.forEach\<close> runs over.\<close>

fun valueOf :: "obj \<Rightarrow> node" where
  "valueOf (ORule i s ks) = Rule s (map valueOf ks)"
| "valueOf (OAtRule i n q None) = AtRule n q None"
| "valueOf (OAtRule i n q (Some ks)) = AtRule n q (Some (map valueOf ks))"
| "valueOf (ODecl i p v) = Decl p v"
| "valueOf (OComment i t) = Comment t"

fun kidsOf :: "obj \<Rightarrow> obj list" where
  "kidsOf (ORule i s ks) = ks"
| "kidsOf (OAtRule i n q None) = []"
| "kidsOf (OAtRule i n q (Some ks)) = ks"
| "kidsOf (ODecl i p v) = []"
| "kidsOf (OComment i t) = []"

text \<open>
  What an expression handed to \<^verbatim>\<open>append\<close> denotes: an object of the parsed tree, which has a
  parent, or a copy, which has none. \<^verbatim>\<open>x.clone()\<close> and \<^verbatim>\<open>x.clone({ nodes: [] })\<close> make copies.
\<close>

datatype handle = Parsed obj | Copy node

fun held :: "handle \<Rightarrow> node" where
  "held (Parsed ob) = valueOf ob"
| "held (Copy v) = v"

definition clone :: "handle \<Rightarrow> handle" where
  "clone h = Copy (held h)"

definition cloneShell :: "handle \<Rightarrow> handle" where
  "cloneShell h = Copy (shell (held h))"

text \<open>
  postcss, outside the repository: \<^verbatim>\<open>append\<close> first takes the node out of the parent it has
  (\<^verbatim>\<open>if (i.parent) i.parent.removeChild(i)\<close>). \<open>detach k src\<close> is the source tree without the
  object \<open>k\<close>, and \<open>adopt src h\<close> is the source tree after some container has appended \<open>h\<close>.
\<close>

fun removeChild :: "nat \<Rightarrow> obj \<Rightarrow> obj" where
  "removeChild k (ORule i s ks) = ORule i s (map (removeChild k) (filter (\<lambda>c. oid c \<noteq> k) ks))"
| "removeChild k (OAtRule i n q None) = OAtRule i n q None"
| "removeChild k (OAtRule i n q (Some ks)) =
     OAtRule i n q (Some (map (removeChild k) (filter (\<lambda>c. oid c \<noteq> k) ks)))"
| "removeChild k (ODecl i p v) = ODecl i p v"
| "removeChild k (OComment i t) = OComment i t"

definition detach :: "nat \<Rightarrow> obj list \<Rightarrow> obj list" where
  "detach k src = map (removeChild k) (filter (\<lambda>c. oid c \<noteq> k) src)"

fun adopt :: "obj list \<Rightarrow> handle \<Rightarrow> obj list" where
  "adopt src (Parsed ob) = detach (oid ob) src"
| "adopt src (Copy v) = src"

text \<open>The shells that lines 146 to 154 append: one \<^verbatim>\<open>parentAtRule.clone({ nodes: [] })\<close> for
  every member of the chain that finds no shell to reuse, by the test of \<open>rebuild\<close>.\<close>

fun shellsMade :: "obj list \<Rightarrow> node list option \<Rightarrow> handle list" where
  "shellsMade [] b = []"
| "shellsMade (p # ps) None = []"
| "shellsMade (p # ps) (Some ns) =
     (if ns \<noteq> [] \<and> sameAtRule (last ns) (valueOf p)
      then shellsMade ps (n_nodes (last ns))
      else cloneShell (Parsed p) # shellsMade ps (Some []))"

text \<open>
  The three placements again, now on a pair of the source root's children and the builder
  state. The chunk is built as before; the source tree goes through one \<open>adopt\<close> for every
  \<^verbatim>\<open>append\<close> of the source: lines 153 and 161 or 166, lines 79 and 84 or 89, line 108.
\<close>

definition placeO :: "(node \<Rightarrow> nat) \<Rightarrow> obj \<Rightarrow> obj list \<Rightarrow> obj list \<times> state
    \<Rightarrow> error + obj list \<times> state" where
  "placeO sz ob parentChain s =
     (case place sz (valueOf ob) (map valueOf parentChain) (snd s) of
        Inl e \<Rightarrow> Inl e
      | Inr st' \<Rightarrow>
          Inr (foldl adopt (fst s)
                 (shellsMade parentChain (Some (currentChunk (snd s))) @ [clone (Parsed ob)]),
               st'))"

definition placeWholeO :: "(node \<Rightarrow> nat) \<Rightarrow> obj \<Rightarrow> obj list \<Rightarrow> obj list \<times> state
    \<Rightarrow> obj list \<times> state" where
  "placeWholeO sz ob parentChain s =
     (foldl adopt (fst s) (map (\<lambda>p. cloneShell (Parsed p)) parentChain @ [clone (Parsed ob)]),
      placeWhole sz (valueOf ob) (map valueOf parentChain) (snd s))"

definition placeOpaqueO :: "(node \<Rightarrow> nat) \<Rightarrow> obj \<Rightarrow> obj list \<times> state \<Rightarrow> obj list \<times> state" where
  "placeOpaqueO sz ob s =
     (adopt (fst s) (clone (Parsed ob)), placeOpaque sz (valueOf ob) (snd s))"

text \<open>
  \<^verbatim>\<open>addNode\<close> and \<^verbatim>\<open>forEach\<close> on objects, branch for branch as above. The loop runs over the
  children as they are when it starts.
\<close>

function addNodeO :: "(node \<Rightarrow> nat) \<Rightarrow> nat \<Rightarrow> obj \<Rightarrow> obj list \<Rightarrow> obj list \<times> state
      \<Rightarrow> error + obj list \<times> state"
  and forEachO :: "(node \<Rightarrow> nat) \<Rightarrow> nat \<Rightarrow> obj list \<Rightarrow> obj list \<Rightarrow> obj list \<times> state
      \<Rightarrow> error + obj list \<times> state"
  where
  "addNodeO sz sizeLimit ob parentChain s =
     (let node = valueOf ob; s1 = (fst s, warn sz sizeLimit node (snd s)) in
      if overflowingAtRule sz sizeLimit node (snd s1) then
        if nonSplittable node then Inr (placeWholeO sz ob parentChain s1)
        else if \<not> hasActualContent node then Inr (placeOpaqueO sz ob s1)
        else forEachO sz sizeLimit (kidsOf ob) (parentChain @ [ob]) s1
      else
        placeO sz ob parentChain (fst s1, flushIfOverflow sz sizeLimit node (snd s1)))"
| "forEachO sz sizeLimit [] parentChain s = Inr s"
| "forEachO sz sizeLimit (child # rest) parentChain s =
     (case addNodeO sz sizeLimit child parentChain s of
        Inl e \<Rightarrow> Inl e
      | Inr s' \<Rightarrow> forEachO sz sizeLimit rest parentChain s')"
  by pat_completeness auto

termination
proof (relation "measure (\<lambda>x. case x of
          Inl (sz, sizeLimit, ob, parentChain, s) \<Rightarrow> 2 * size ob + 1
        | Inr (sz, sizeLimit, obs, parentChain, s) \<Rightarrow> 2 * size_list size obs)", goal_cases)
  case 1
  show ?case by simp
next
  case (2 sz sizeLimit ob parentChain s x xa)
  have "size_list size (kidsOf ob) \<le> size ob"
    by (cases ob rule: kidsOf.cases) auto
  then show ?case by simp
next
  case 3
  show ?case by simp
next
  case 4
  show ?case by simp
qed

declare addNodeO.simps [simp del]

text \<open>\<^verbatim>\<open>root.removeAll()\<close>, line 182: the root keeps no child.\<close>

definition removeAllO :: "obj list \<Rightarrow> obj list" where
  "removeAllO src = []"

text \<open>\<^verbatim>\<open>Once\<close> on objects: the source root's children after line 182, and the result.\<close>

definition OnceO :: "(node \<Rightarrow> nat) \<Rightarrow> nat \<Rightarrow> obj list \<Rightarrow> error + obj list \<times> result" where
  "OnceO sz sizeLimit objs =
     (case forEachO sz sizeLimit objs [] (objs, initState) of
        Inl e \<Rightarrow> Inl e
      | Inr s \<Rightarrow>
          Inr (removeAllO (fst s),
               \<lparr>chunks = finalChunks (startNewChunk (snd s)),
                reported = warnings (snd s),
                root = map valueOf (removeAllO (fst s))\<rparr>))"

section \<open>Notions the properties are stated with\<close>

text \<open>No finished chunk is empty.\<close>

definition chunksNonEmpty :: "state \<Rightarrow> bool" where
  "chunksNonEmpty st = list_all (\<lambda>c. c \<noteq> []) (finalChunks st)"

text \<open>
  The at-rules of the fixed list that occur in a tree, outermost first and in document
  order, each with its whole subtree. The search goes through rules and through every other
  at-rule, so it sees the same units in an input tree and in a chunk whatever shells were
  put around them.
\<close>

fun atomicUnits :: "node \<Rightarrow> node list" where
  "atomicUnits (Rule s ch) = concat (map atomicUnits ch)"
| "atomicUnits (AtRule n q b) =
     (if n \<in> set nonSplittableAtRules then [AtRule n q b]
      else (case b of None \<Rightarrow> [] | Some ch \<Rightarrow> concat (map atomicUnits ch)))"
| "atomicUnits (Decl p v) = []"
| "atomicUnits (Comment t) = []"

definition unitsOf :: "node list \<Rightarrow> node list" where
  "unitsOf ns = concat (map atomicUnits ns)"

definition stateUnits :: "state \<Rightarrow> node list" where
  "stateUnits st = concat (map unitsOf (finalChunks st)) @ unitsOf (currentChunk st)"

text \<open>Every member of a parent chain is an at-rule outside the fixed list: \<^verbatim>\<open>addNode\<close>
  extends the chain only at line 114, after line 63 has sent the listed names away.\<close>

definition splittableChain :: "node list \<Rightarrow> bool" where
  "splittableChain chain = list_all (\<lambda>p. n_type p = TAtRule \<and> \<not> nonSplittable p) chain"

text \<open>Appending nodes to the root of the current chunk, with their sizes.\<close>

definition appendRoot :: "(node \<Rightarrow> nat) \<Rightarrow> node list \<Rightarrow> state \<Rightarrow> state" where
  "appendRoot sz ns st =
     st\<lparr>currentChunk := currentChunk st @ ns,
        currentChunkSize := currentChunkSize st + sum_list (map sz ns)\<rparr>"

text \<open>The nodes that line 114 can split: at-rules with children, outside the fixed list,
  that hold a rule or an at-rule with children. An input is never split when none of its
  top-level nodes is one of them.\<close>

definition splitsAtTop :: "node \<Rightarrow> bool" where
  "splitsAtTop n =
     (n_type n = TAtRule \<and> hasNodes n \<and> \<not> nonSplittable n \<and> hasActualContent n)"

definition neverSplit :: "node list \<Rightarrow> bool" where
  "neverSplit ns = list_all (\<lambda>n. \<not> splitsAtTop n) ns"

text \<open>The number of chunks the state would give if the run ended now.\<close>

definition chunkCount :: "state \<Rightarrow> nat" where
  "chunkCount st = length (finalChunks (startNewChunk st))"

text \<open>The relation kept between a run with the smaller limit (\<open>sa\<close>) and a run with the
  larger limit (\<open>sb\<close>) over the same input: the first has more chunks, or as many and
  a current chunk at least as full.\<close>

definition ahead :: "state \<Rightarrow> state \<Rightarrow> bool" where
  "ahead sa sb =
     ((currentChunk sa = [] \<longleftrightarrow> currentChunk sb = [])
      \<and> (chunkCount sb < chunkCount sa
          \<or> (chunkCount sb = chunkCount sa \<and> currentChunkSize sb \<le> currentChunkSize sa)))"

text \<open>The proper descendants of a node, and the nodes of a list with all their
  descendants.\<close>

fun descendants :: "node \<Rightarrow> node list" where
  "descendants (Rule s ch) = concat (map (\<lambda>c. c # descendants c) ch)"
| "descendants (AtRule n q None) = []"
| "descendants (AtRule n q (Some ch)) = concat (map (\<lambda>c. c # descendants c) ch)"
| "descendants (Decl p v) = []"
| "descendants (Comment t) = []"

definition subtrees :: "node list \<Rightarrow> node list" where
  "subtrees ns = concat (map (\<lambda>c. c # descendants c) ns)"

text \<open>What one visit reports about its own node.\<close>

definition ownWarning :: "(node \<Rightarrow> nat) \<Rightarrow> nat \<Rightarrow> node \<Rightarrow> warning list" where
  "ownWarning sz lim node =
     (if lim \<noteq> 0 \<and> lim < sz node then [oversizeWarning sz lim node] else [])"

text \<open>\<open>w\<close> is the warning of an oversize node among \<open>ns\<close>.\<close>

definition oversizeOf :: "(node \<Rightarrow> nat) \<Rightarrow> nat \<Rightarrow> node list \<Rightarrow> warning \<Rightarrow> bool" where
  "oversizeOf sz lim ns w =
     (w_node w \<in> set ns \<and> lim < sz (w_node w) \<and> w = oversizeWarning sz lim (w_node w))"

text \<open>
  The leaf content of a tree in document order: rules with their selectors and declarations,
  declarations, comments and at-rules without a block. An at-rule with a block contributes
  what its block holds, so the shells put around a node in a chunk add nothing.
\<close>

fun leafContent :: "node \<Rightarrow> node list" where
  "leafContent (Rule s ch) = [Rule s ch]"
| "leafContent (AtRule n q None) = [AtRule n q None]"
| "leafContent (AtRule n q (Some ch)) = concat (map leafContent ch)"
| "leafContent (Decl p v) = [Decl p v]"
| "leafContent (Comment t) = [Comment t]"

definition leavesOf :: "node list \<Rightarrow> node list" where
  "leavesOf ns = concat (map leafContent ns)"

text \<open>The bytes of a chunk as postcss prints its root from minified nodes: the body of the
  root, with the same rule for semicolons as in a block.\<close>

definition chunkBytes :: "node list \<Rightarrow> nat" where
  "chunkBytes c = length (body (lastIndex c) 0 c)"

definition stateLeaves :: "state \<Rightarrow> node list" where
  "stateLeaves st = concat (map leavesOf (finalChunks st)) @ leavesOf (currentChunk st)"

text \<open>
  The name and parameters of a node, which line 139 and 140 compare, and the keys of the
  at-rules without a block that occur in a tree.
\<close>

definition atKey :: "node \<Rightarrow> string option \<times> string option" where
  "atKey n = (n_name n, n_params n)"

fun statementKeys :: "node \<Rightarrow> (string option \<times> string option) list" where
  "statementKeys (Rule s ch) = concat (map statementKeys ch)"
| "statementKeys (AtRule n q None) = [(Some n, Some q)]"
| "statementKeys (AtRule n q (Some ch)) = concat (map statementKeys ch)"
| "statementKeys (Decl p v) = []"
| "statementKeys (Comment t) = []"

definition statementKeysOf :: "node list \<Rightarrow> (string option \<times> string option) list" where
  "statementKeysOf ns = concat (map statementKeys ns)"

text \<open>An input is free of clashes when no at-rule with children has the name and parameters
  of an at-rule without a block: no \<^verbatim>\<open>@layer a;\<close> beside a \<^verbatim>\<open>@layer a{...}\<close>.\<close>

definition clashFree :: "node list \<Rightarrow> bool" where
  "clashFree ns =
     list_all (\<lambda>p. n_type p = TAtRule \<and> hasNodes p \<longrightarrow> atKey p \<notin> set (statementKeysOf ns))
       (subtrees ns)"

definition blocksAvoid :: "(string option \<times> string option) set \<Rightarrow> node list \<Rightarrow> bool" where
  "blocksAvoid K ns = (\<forall>p \<in> set ns. n_type p = TAtRule \<and> hasNodes p \<longrightarrow> atKey p \<notin> K)"

definition chainAvoids :: "(string option \<times> string option) set \<Rightarrow> node list \<Rightarrow> bool" where
  "chainAvoids K chain = (\<forall>p \<in> set chain. n_type p = TAtRule \<and> atKey p \<notin> K)"

definition keysWithin :: "(string option \<times> string option) set \<Rightarrow> state \<Rightarrow> bool" where
  "keysWithin K st = (set (statementKeysOf (currentChunk st)) \<subseteq> K)"

text \<open>The last node of \<open>ns\<close> is \<open>node\<close> under the at-rules of the chain: going down through
  last children, one at-rule of the same name and parameters for every member of the chain,
  then the node.\<close>

fun nestedUnder :: "node list \<Rightarrow> node \<Rightarrow> node list \<Rightarrow> bool" where
  "nestedUnder [] node ns = (ns \<noteq> [] \<and> last ns = node)"
| "nestedUnder (p # ps) node ns =
     (ns \<noteq> [] \<and> sameAtRule (last ns) p \<and> nestedUnder ps node (children (last ns)))"

section \<open>Example stylesheets\<close>

text \<open>\<^verbatim>\<open>.a{color:red}\<close> and \<^verbatim>\<open>.b{color:red}\<close>, 13 bytes each.\<close>

definition exRuleA :: node where
  "exRuleA = Rule [''.a''] [Decl ''color'' ''red'']"

definition exRuleB :: node where
  "exRuleB = Rule [''.b''] [Decl ''color'' ''red'']"

text \<open>\<^verbatim>\<open>@keyframes k{from{opacity:0}to{opacity:1}}\<close>, 42 bytes.\<close>

definition exKeyframes :: node where
  "exKeyframes = AtRule ''keyframes'' ''k''
     (Some [Rule [''from''] [Decl ''opacity'' ''0''], Rule [''to''] [Decl ''opacity'' ''1'']])"

text \<open>\<^verbatim>\<open>@media screen{.a{color:red}@keyframes k{...}.b{color:red}}\<close>, 83 bytes.\<close>

definition exMediaKeyframes :: node where
  "exMediaKeyframes = AtRule ''media'' ''screen'' (Some [exRuleA, exKeyframes, exRuleB])"

text \<open>\<^verbatim>\<open>.c{}\<close>, 4 bytes.\<close>

definition exRuleC :: node where
  "exRuleC = Rule [''.c''] []"

text \<open>\<^verbatim>\<open>@media print{.a{color:red}}\<close> and \<^verbatim>\<open>@media print{.b{color:red}}\<close>, 27 bytes each,
  and what the two give when merged, 40 bytes.\<close>

definition exPrintA :: node where
  "exPrintA = AtRule ''media'' ''print'' (Some [exRuleA])"

definition exPrintB :: node where
  "exPrintB = AtRule ''media'' ''print'' (Some [exRuleB])"

definition exPrintAB :: node where
  "exPrintAB = AtRule ''media'' ''print'' (Some [exRuleA, exRuleB])"

text \<open>\<^verbatim>\<open>@layer a;\<close>, 8 bytes as a node, and
  \<^verbatim>\<open>@layer a{@media print{.a{color:red}.b{color:red}}}\<close>, 50 bytes.\<close>

definition exLayerStatement :: node where
  "exLayerStatement = AtRule ''layer'' ''a'' None"

definition exLayerMedia :: node where
  "exLayerMedia = AtRule ''layer'' ''a'' (Some [exPrintAB])"

text \<open>\<^verbatim>\<open>@view-transition{navigation:auto}\<close>, 33 bytes, and
  \<^verbatim>\<open>@media screen{.b{color:red}@view-transition{navigation:auto}}\<close>, 61 bytes.\<close>

definition exViewTransition :: node where
  "exViewTransition = AtRule ''view-transition'' [] (Some [Decl ''navigation'' ''auto''])"

definition exScreen :: node where
  "exScreen = AtRule ''media'' ''screen'' (Some [exRuleB, exViewTransition])"

text \<open>The two rules as parsed objects.\<close>

definition exObjA :: obj where
  "exObjA = ORule 0 [''.a''] [ODecl 1 ''color'' ''red'']"

definition exObjB :: obj where
  "exObjB = ORule 2 [''.b''] [ODecl 3 ''color'' ''red'']"

section \<open>Basic facts about the builder\<close>

lemma warn_fields [simp]:
  "finalChunks (warn sz lim node st) = finalChunks st"
  "currentChunk (warn sz lim node st) = currentChunk st"
  "currentChunkSize (warn sz lim node st) = currentChunkSize st"
  by (simp_all add: warn_def)

lemma startNewChunk_fields [simp]:
  "currentChunk (startNewChunk st) = []"
  "currentChunkSize (startNewChunk st) = 0"
  "warnings (startNewChunk st) = warnings st"
  by (simp_all add: startNewChunk_def)

lemma flushIfOverflow_warnings [simp]:
  "warnings (flushIfOverflow sz lim node st) = warnings st"
  by (simp add: flushIfOverflow_def)

lemma place_fields:
  assumes "place sz node chain st = Inr st'"
  shows "finalChunks st' = finalChunks st" and "warnings st' = warnings st"
  using assms by (auto simp: place_def split: if_splits sum.splits prod.splits)

lemma placeOpaque_fields [simp]:
  "finalChunks (placeOpaque sz node st) = finalChunks st"
  "warnings (placeOpaque sz node st) = warnings st"
  "currentChunk (placeOpaque sz node st) = currentChunk st @ [node]"
  "currentChunkSize (placeOpaque sz node st) = currentChunkSize st + sz node"
  by (simp_all add: placeOpaque_def)

lemma placeWhole_warnings [simp]:
  "warnings (placeWhole sz node chain st) = warnings st"
  by (simp add: placeWhole_def Let_def)

lemma withNodes_props [simp]:
  "n_type (withNodes p ch) = n_type p"
  "n_name (withNodes p ch) = n_name p"
  "n_params (withNodes p ch) = n_params p"
  by (cases p; simp)+

lemma nonSplittable_withNodes [simp]: "nonSplittable (withNodes p ch) = nonSplittable p"
  by (simp add: nonSplittable_def)

lemma children_withNodes:
  "n_type p = TAtRule \<or> n_type p = TRule \<Longrightarrow> children (withNodes p ch) = ch"
  by (cases p) (simp_all add: children_def)

lemma descendants_children: "descendants node = subtrees (children node)"
  by (cases node) (auto simp: subtrees_def children_def split: option.splits)

text \<open>The four branches of \<^verbatim>\<open>addNode\<close>.\<close>

lemma addNode_whole:
  "overflowingAtRule sz lim node (warn sz lim node st) \<Longrightarrow> nonSplittable node \<Longrightarrow>
   addNode sz lim node chain st = Inr (placeWhole sz node chain (warn sz lim node st))"
  by (simp add: addNode.simps [of sz lim node chain st])

lemma addNode_opaque:
  "overflowingAtRule sz lim node (warn sz lim node st) \<Longrightarrow> \<not> nonSplittable node \<Longrightarrow>
   \<not> hasActualContent node \<Longrightarrow>
   addNode sz lim node chain st = Inr (placeOpaque sz node (warn sz lim node st))"
  by (simp add: addNode.simps [of sz lim node chain st])

lemma addNode_split:
  "overflowingAtRule sz lim node (warn sz lim node st) \<Longrightarrow> \<not> nonSplittable node \<Longrightarrow>
   hasActualContent node \<Longrightarrow>
   addNode sz lim node chain st =
     forEach sz lim (children node) (chain @ [node]) (warn sz lim node st)"
  by (simp add: addNode.simps [of sz lim node chain st])

lemma addNode_normal:
  "\<not> overflowingAtRule sz lim node (warn sz lim node st) \<Longrightarrow>
   addNode sz lim node chain st =
     place sz node chain (flushIfOverflow sz lim node (warn sz lim node st))"
  by (simp add: addNode.simps [of sz lim node chain st])

section \<open>Leaf content\<close>

text \<open>
  Where no at-rule with children shares its name and parameters with an at-rule without a
  block, the run completes and the chunks hold the leaf content of the input, in order and
  once each. The proof keeps three facts along \<^verbatim>\<open>addNode\<close>: every at-rule without a block
  in the current chunk has a key of the set \<open>K\<close>, no member of the chain has, and no at-rule
  with children in the node has.
\<close>

lemma leavesOf_simps [simp]:
  "leavesOf [] = []"
  "leavesOf (n # ns) = leafContent n @ leavesOf ns"
  "leavesOf (xs @ ys) = leavesOf xs @ leavesOf ys"
  by (simp_all add: leavesOf_def)

lemma statementKeysOf_simps [simp]:
  "statementKeysOf [] = []"
  "statementKeysOf (n # ns) = statementKeys n @ statementKeysOf ns"
  "statementKeysOf (xs @ ys) = statementKeysOf xs @ statementKeysOf ys"
  by (simp_all add: statementKeysOf_def)

lemma subtrees_simps [simp]:
  "subtrees [] = []"
  "subtrees (n # ns) = n # descendants n @ subtrees ns"
  by (simp_all add: subtrees_def)

lemma at_rule_cases:
  assumes "n_type p = TAtRule"
  obtains n q b where "p = AtRule n q b"
  using assms by (cases p) auto

lemma leafContent_withNodes:
  "n_type p = TAtRule \<Longrightarrow> leafContent (withNodes p ch) = leavesOf ch"
  by (erule at_rule_cases) (simp add: leavesOf_def)

lemma statementKeys_withNodes:
  "n_type p = TAtRule \<Longrightarrow> statementKeys (withNodes p ch) = statementKeysOf ch"
  by (erule at_rule_cases) (simp add: statementKeysOf_def)

lemma leafContent_block:
  "n_type p = TAtRule \<Longrightarrow> n_nodes p = Some ch \<Longrightarrow> leafContent p = leavesOf ch"
  by (erule at_rule_cases) (simp add: leavesOf_def)

lemma statementKeys_block:
  "n_type p = TAtRule \<Longrightarrow> n_nodes p = Some ch \<Longrightarrow> statementKeys p = statementKeysOf ch"
  by (erule at_rule_cases) (simp add: statementKeysOf_def)

lemma statementKeys_statement:
  "n_type p = TAtRule \<Longrightarrow> n_nodes p = None \<Longrightarrow> statementKeys p = [atKey p]"
  by (erule at_rule_cases) (simp add: atKey_def)

lemma leafContent_wrapShells:
  "chainAvoids K chain \<Longrightarrow> leafContent (wrapShells chain node) = leafContent node"
  by (induction chain)
    (simp_all add: chainAvoids_def appendChild_def shell_def leafContent_withNodes
      children_withNodes)

lemma statementKeys_wrapShells:
  "chainAvoids K chain \<Longrightarrow> statementKeys (wrapShells chain node) = statementKeys node"
  by (induction chain)
    (simp_all add: chainAvoids_def appendChild_def shell_def statementKeys_withNodes
      children_withNodes)

lemma rebuild_clash_free:
  assumes "chainAvoids K chain" and "set (statementKeysOf ns) \<subseteq> K"
    and "set (statementKeys node) \<subseteq> K"
  shows "\<exists>ns' k. rebuild sz chain node (Some ns) = Inr (ns', k)
           \<and> set (statementKeysOf ns') \<subseteq> K
           \<and> leavesOf ns' = leavesOf ns @ leafContent node"
  using assms
proof (induction chain arbitrary: ns)
  case Nil
  then show ?case by simp
next
  case (Cons p ps)
  from Cons.prems(1) have p: "n_type p = TAtRule" "atKey p \<notin> K" and ps: "chainAvoids K ps"
    by (simp_all add: chainAvoids_def)
  show ?case
  proof (cases "ns \<noteq> [] \<and> sameAtRule (last ns) p")
    case True
    then have ns: "ns = butlast ns @ [last ns]" by simp
    from True have l: "n_type (last ns) = TAtRule" and k: "atKey (last ns) = atKey p"
      by (simp_all add: sameAtRule_def atKey_def)
    have sub: "set (statementKeys (last ns)) \<subseteq> K"
      using Cons.prems(2) by (subst (asm) ns) simp
    obtain ch where ch: "n_nodes (last ns) = Some ch"
    proof (cases "n_nodes (last ns)")
      case None
      with l sub k p(2) show ?thesis by (simp add: statementKeys_statement)
    next
      case (Some ch)
      with that show ?thesis .
    qed
    with l sub have "set (statementKeysOf ch) \<subseteq> K" by (simp add: statementKeys_block)
    from Cons.IH [OF ps this Cons.prems(3)] obtain ch' k' where
      r: "rebuild sz ps node (Some ch) = Inr (ch', k')"
      and k': "set (statementKeysOf ch') \<subseteq> K"
      and l': "leavesOf ch' = leavesOf ch @ leafContent node" by blast
    have "set (statementKeysOf (butlast ns)) \<subseteq> K"
      using Cons.prems(2) by (subst (asm) ns) simp
    with k' l have "set (statementKeysOf (butlast ns @ [withNodes (last ns) ch'])) \<subseteq> K"
      by (simp add: statementKeys_withNodes)
    moreover have "leavesOf ns = leavesOf (butlast ns) @ leavesOf ch"
      by (subst ns) (simp add: leafContent_block [OF l ch])
    with l' l have "leavesOf (butlast ns @ [withNodes (last ns) ch'])
        = leavesOf ns @ leafContent node"
      by (simp add: leafContent_withNodes)
    ultimately show ?thesis using True r ch by simp
  next
    case False
    from Cons.IH [OF ps _ Cons.prems(3), of "[]"] obtain ch' k' where
      r: "rebuild sz ps node (Some []) = Inr (ch', k')"
      and k': "set (statementKeysOf ch') \<subseteq> K"
      and l': "leavesOf ch' = leafContent node" by auto
    from p(1) have sh: "n_type (shell p) = TAtRule" by (simp add: shell_def)
    from False r k' l' Cons.prems(2) sh show ?thesis
      by (auto simp: statementKeys_withNodes leafContent_withNodes)
  qed
qed


lemma keysWithin_warn [simp]: "keysWithin K (warn sz lim node st) = keysWithin K st"
  by (simp add: keysWithin_def)

lemma keysWithin_flushIfOverflow:
  "keysWithin K st \<Longrightarrow> keysWithin K (flushIfOverflow sz lim node st)"
  by (simp add: keysWithin_def flushIfOverflow_def)

lemma stateLeaves_warn [simp]: "stateLeaves (warn sz lim node st) = stateLeaves st"
  by (simp add: stateLeaves_def)

lemma stateLeaves_startNewChunk [simp]: "stateLeaves (startNewChunk st) = stateLeaves st"
  by (simp add: stateLeaves_def startNewChunk_def)

lemma stateLeaves_flushIfOverflow [simp]:
  "stateLeaves (flushIfOverflow sz lim node st) = stateLeaves st"
  by (simp add: flushIfOverflow_def)

lemma place_clash_free:
  assumes "chainAvoids K chain" and "keysWithin K st" and "set (statementKeys node) \<subseteq> K"
  shows "\<exists>st'. place sz node chain st = Inr st' \<and> keysWithin K st'
           \<and> stateLeaves st' = stateLeaves st @ leafContent node"
proof (cases "chain = []")
  case True
  with assms show ?thesis by (simp add: place_def keysWithin_def stateLeaves_def)
next
  case False
  from assms(2) have "set (statementKeysOf (currentChunk st)) \<subseteq> K"
    by (simp add: keysWithin_def)
  from rebuild_clash_free [OF assms(1) this assms(3), of sz] False show ?thesis
    by (auto simp: place_def keysWithin_def stateLeaves_def)
qed

lemma placeWhole_clash_free:
  assumes "chainAvoids K chain" and "keysWithin K st" and "set (statementKeys node) \<subseteq> K"
  shows "keysWithin K (placeWhole sz node chain st)
         \<and> stateLeaves (placeWhole sz node chain st) = stateLeaves st @ leafContent node"
  using assms
  by (auto simp: placeWhole_def Let_def keysWithin_def stateLeaves_def startNewChunk_def
      leafContent_wrapShells statementKeys_wrapShells)

lemma placeOpaque_clash_free:
  assumes "keysWithin K st" and "set (statementKeys node) \<subseteq> K"
  shows "keysWithin K (placeOpaque sz node st)
         \<and> stateLeaves (placeOpaque sz node st) = stateLeaves st @ leafContent node"
  using assms by (auto simp: keysWithin_def stateLeaves_def)

lemma hasNodes_block:
  assumes "n_type node = TAtRule" and "hasNodes node"
  obtains ch where "n_nodes node = Some ch" and "children node = ch"
  using assms by (cases "n_nodes node") (auto simp: hasNodes_def children_def)

lemma addNode_clash_free:
  "set (statementKeys node) \<subseteq> K \<Longrightarrow> blocksAvoid K (node # descendants node) \<Longrightarrow>
   chainAvoids K chain \<Longrightarrow> keysWithin K st \<Longrightarrow>
     \<exists>st'. addNode sz lim node chain st = Inr st' \<and> keysWithin K st'
          \<and> stateLeaves st' = stateLeaves st @ leafContent node"
  "set (statementKeysOf ns) \<subseteq> K \<Longrightarrow> blocksAvoid K (subtrees ns) \<Longrightarrow>
   chainAvoids K chain \<Longrightarrow> keysWithin K st \<Longrightarrow>
     \<exists>st'. forEach sz lim ns chain st = Inr st' \<and> keysWithin K st'
          \<and> stateLeaves st' = stateLeaves st @ leavesOf ns"
proof (induction sz lim node chain st and sz lim ns chain st
    rule: addNode_forEach.induct)
  case (1 sz lim node chain st)
  let ?st1 = "warn sz lim node st"
  from "1.prems"(4) have k1: "keysWithin K ?st1" by simp
  show ?case
  proof (cases "overflowingAtRule sz lim node ?st1")
    case over: True
    show ?thesis
    proof (cases "nonSplittable node")
      case True
      with over placeWhole_clash_free [OF "1.prems"(3) k1 "1.prems"(1), of sz]
      show ?thesis by (simp add: addNode_whole)
    next
      case ns: False
      show ?thesis
      proof (cases "hasActualContent node")
        case False
        with over ns placeOpaque_clash_free [OF k1 "1.prems"(1), of sz]
        show ?thesis by (simp add: addNode_opaque)
      next
        case True
        from over have at: "n_type node = TAtRule" and hn: "hasNodes node"
          by (simp_all add: overflowingAtRule_def)
        then obtain ch where ch: "n_nodes node = Some ch" "children node = ch"
          by (rule hasNodes_block)
        from "1.prems"(1) at ch have a: "set (statementKeysOf (children node)) \<subseteq> K"
          by (simp add: statementKeys_block)
        from "1.prems"(2) have b: "blocksAvoid K (subtrees (children node))"
          by (simp add: blocksAvoid_def descendants_children)
        from "1.prems"(2) at hn have "atKey node \<notin> K" by (simp add: blocksAvoid_def)
        with "1.prems"(3) at have c: "chainAvoids K (chain @ [node])"
          by (simp add: chainAvoids_def)
        from "1.IH" [OF refl over ns _ a b c k1] True over ns at ch
        show ?thesis by (simp add: addNode_split leafContent_block)
      qed
    qed
  next
    case False
    from k1 have "keysWithin K (flushIfOverflow sz lim node ?st1)"
      by (rule keysWithin_flushIfOverflow)
    from place_clash_free [OF "1.prems"(3) this "1.prems"(1), of sz] False
    show ?thesis by (simp add: addNode_normal)
  qed
next
  case (2 sz lim chain st)
  then show ?case by simp
next
  case (3 sz lim child rest chain st)
  from "3.prems"(1) have c1: "set (statementKeys child) \<subseteq> K"
    and r1: "set (statementKeysOf rest) \<subseteq> K" by simp_all
  from "3.prems"(2) have c2: "blocksAvoid K (child # descendants child)"
    and r2: "blocksAvoid K (subtrees rest)" by (auto simp: blocksAvoid_def)
  from "3.IH"(1) [OF c1 c2 "3.prems"(3,4)] obtain st1 where
    a: "addNode sz lim child chain st = Inr st1" and k: "keysWithin K st1"
    and l: "stateLeaves st1 = stateLeaves st @ leafContent child" by blast
  from "3.IH"(2) [OF a r1 r2 "3.prems"(3) k] a l show ?case by auto
qed

lemma lossless_when_clash_free:
  assumes "clashFree nodes"
  shows "\<exists>r. Once sz lim nodes = Inr r \<and> concat (map leavesOf (chunks r)) = leavesOf nodes"
proof -
  let ?K = "set (statementKeysOf nodes)"
  from assms have "blocksAvoid ?K (subtrees nodes)"
    by (simp add: clashFree_def blocksAvoid_def list_all_iff)
  moreover have "chainAvoids ?K []" by (simp add: chainAvoids_def)
  moreover have "keysWithin ?K initState" by (simp add: keysWithin_def initState_def)
  ultimately obtain st where run: "forEach sz lim nodes [] initState = Inr st"
    and l: "stateLeaves st = stateLeaves initState @ leavesOf nodes"
    using addNode_clash_free(2) [of nodes ?K "[]" initState sz lim] by blast
  have "concat (map leavesOf (finalChunks (startNewChunk st))) = stateLeaves st"
    by (simp add: stateLeaves_def startNewChunk_def)
  with run l show ?thesis by (simp add: Once_def stateLeaves_def initState_def)
qed

lemma Once_completes:
  assumes "clashFree nodes"
  shows "\<exists>r. Once sz lim nodes = Inr r"
  using lossless_when_clash_free [OF assms, of sz lim] by blast

text \<open>
  Claim C1: the chunks hold the leaf content of every well-formed input, in order and once
  each. The code misses the case of an at-rule without a block in the test of lines 136 to
  141. Under limit 30 the root \<^verbatim>\<open>@layer a;@layer a{@media print{.a{color:red}.b{color:red}}}\<close>
  is split down to its rules; the first rule fits beside \<^verbatim>\<open>@layer a\<close>, the statement is
  taken for the shell of the block, and the read of \<^verbatim>\<open>currentParent.nodes.length\<close> on it
  throws: no chunk is produced. Under limit 57 the media block is placed as one node, the
  statement is again taken for the shell and receives the block: the statement is no longer
  among the leaves of the output.
\<close>

theorem lossless_content_failing_input:
  "Once cssBytes 30 [exLayerStatement, exLayerMedia] = Inl TypeError
   \<and> Once cssBytes 57 [exLayerStatement, exLayerMedia]
       = Inr \<lparr>chunks = [[exLayerMedia]], reported = [], root = []\<rparr>
   \<and> leavesOf [exLayerStatement, exLayerMedia] = [exLayerStatement, exRuleA, exRuleB]
   \<and> concat (map leavesOf [[exLayerMedia]]) = [exRuleA, exRuleB]
   \<and> concat (map leavesOf [[exLayerMedia]]) \<noteq> leavesOf [exLayerStatement, exLayerMedia]"
  by code_simp

section \<open>Finished chunks are never empty\<close>

lemma chunksNonEmpty_startNewChunk:
  "chunksNonEmpty st \<Longrightarrow> chunksNonEmpty (startNewChunk st)"
  by (simp add: chunksNonEmpty_def startNewChunk_def)

lemma chunksNonEmpty_warn [simp]:
  "chunksNonEmpty (warn sz lim node st) = chunksNonEmpty st"
  by (simp add: chunksNonEmpty_def)

lemma chunksNonEmpty_flushIfOverflow:
  "chunksNonEmpty st \<Longrightarrow> chunksNonEmpty (flushIfOverflow sz lim node st)"
  by (simp add: flushIfOverflow_def chunksNonEmpty_startNewChunk)

lemma chunksNonEmpty_placeWhole:
  "chunksNonEmpty st \<Longrightarrow> chunksNonEmpty (placeWhole sz node chain st)"
  using chunksNonEmpty_startNewChunk [of st]
  by (auto simp: placeWhole_def Let_def chunksNonEmpty_def)

lemma chunksNonEmpty_placeOpaque [simp]:
  "chunksNonEmpty (placeOpaque sz node st) = chunksNonEmpty st"
  by (simp add: chunksNonEmpty_def)

lemma chunksNonEmpty_place:
  "place sz node chain st = Inr st' \<Longrightarrow> chunksNonEmpty st \<Longrightarrow> chunksNonEmpty st'"
  by (simp add: chunksNonEmpty_def place_fields)

lemma chunksNonEmpty_addNode:
  "addNode sz lim node chain st = Inr st' \<Longrightarrow> chunksNonEmpty st \<Longrightarrow> chunksNonEmpty st'"
  "forEach sz lim ns chain st = Inr st' \<Longrightarrow> chunksNonEmpty st \<Longrightarrow> chunksNonEmpty st'"
proof (induction sz lim node chain st and sz lim ns chain st arbitrary: st' and st'
    rule: addNode_forEach.induct)
  case (1 sz lim node chain st)
  let ?st1 = "warn sz lim node st"
  show ?case
  proof (cases "overflowingAtRule sz lim node ?st1")
    case over: True
    show ?thesis
    proof (cases "nonSplittable node")
      case True
      with over "1.prems" show ?thesis
        by (auto simp: addNode_whole chunksNonEmpty_placeWhole)
    next
      case ns: False
      show ?thesis
      proof (cases "hasActualContent node")
        case False
        with over ns "1.prems" show ?thesis by (auto simp: addNode_opaque)
      next
        case True
        with over ns "1.prems"
        have "forEach sz lim (children node) (chain @ [node]) ?st1 = Inr st'"
          by (simp add: addNode_split)
        from "1.IH" [OF refl over ns _ this] True "1.prems"(2) show ?thesis by simp
      qed
    qed
  next
    case False
    with "1.prems"(1)
    have "place sz node chain (flushIfOverflow sz lim node ?st1) = Inr st'"
      by (simp add: addNode_normal)
    moreover from "1.prems"(2) have "chunksNonEmpty (flushIfOverflow sz lim node ?st1)"
      by (simp add: chunksNonEmpty_flushIfOverflow)
    ultimately show ?thesis by (rule chunksNonEmpty_place)
  qed
next
  case (2 sz lim chain st)
  then show ?case by simp
next
  case (3 sz lim child rest chain st)
  then show ?case by (auto split: sum.splits)
qed

text \<open>
  Claim C10. \<^verbatim>\<open>startNewChunk\<close> never adds an empty chunk to the finished ones; every chunk
  that a completed run of \<^verbatim>\<open>Once\<close> hands out holds at least one node; and an input without
  nodes gives no chunk and no warning.
\<close>

theorem flush_never_emits_empty_chunk:
  "(chunksNonEmpty st \<longrightarrow> chunksNonEmpty (startNewChunk st))
   \<and> (Once sz lim nodes = Inr r \<longrightarrow> list_all (\<lambda>c. c \<noteq> []) (chunks r))
   \<and> Once sz lim [] = Inr \<lparr>chunks = [], reported = [], root = []\<rparr>"
proof (intro conjI impI)
  show "chunksNonEmpty (startNewChunk st)" if "chunksNonEmpty st"
    using that by (rule chunksNonEmpty_startNewChunk)
  show "list_all (\<lambda>c. c \<noteq> []) (chunks r)" if "Once sz lim nodes = Inr r"
  proof -
    from that obtain st' where run: "forEach sz lim nodes [] initState = Inr st'"
      and r: "chunks r = finalChunks (startNewChunk st')"
      by (auto simp: Once_def split: sum.splits)
    have "chunksNonEmpty initState" by (simp add: chunksNonEmpty_def initState_def)
    with run have "chunksNonEmpty st'" by (rule chunksNonEmpty_addNode(2))
    then have "chunksNonEmpty (startNewChunk st')" by (rule chunksNonEmpty_startNewChunk)
    with r show ?thesis by (simp add: chunksNonEmpty_def)
  qed
  show "Once sz lim [] = Inr \<lparr>chunks = [], reported = [], root = []\<rparr>"
    by (simp add: Once_def initState_def startNewChunk_def removeAll_root_def)
qed

theorem flush_never_emits_empty_chunk_witness:
  "chunksNonEmpty initState \<and> chunksNonEmpty (startNewChunk initState)
   \<and> Once cssBytes 20 [exRuleA, exRuleB]
       = Inr \<lparr>chunks = [[exRuleA], [exRuleB]], reported = [], root = []\<rparr>
   \<and> list_all (\<lambda>c. c \<noteq> []) [[exRuleA], [exRuleB]]"
proof -
  have a: "chunksNonEmpty initState" by code_simp
  have b: "Once cssBytes 20 [exRuleA, exRuleB]
       = Inr \<lparr>chunks = [[exRuleA], [exRuleB]], reported = [], root = []\<rparr>"
    by code_simp
  from flush_never_emits_empty_chunk [of initState cssBytes 20 "[exRuleA, exRuleB]"
      "\<lparr>chunks = [[exRuleA], [exRuleB]], reported = [], root = []\<rparr>"] a b
  show ?thesis by simp
qed

section \<open>At-rules of the fixed list stay whole\<close>

lemma unitsOf_simps [simp]:
  "unitsOf [] = []"
  "unitsOf (n # ns) = atomicUnits n @ unitsOf ns"
  "unitsOf (xs @ ys) = unitsOf xs @ unitsOf ys"
  by (simp_all add: unitsOf_def)

lemma atomicUnits_splittable:
  "n_type p = TAtRule \<Longrightarrow> \<not> nonSplittable p \<Longrightarrow> atomicUnits p = unitsOf (children p)"
  by (cases p) (auto simp: nonSplittable_def children_def unitsOf_def split: option.splits)

lemma atomicUnits_withNodes:
  "n_type p = TAtRule \<Longrightarrow> \<not> nonSplittable p \<Longrightarrow> atomicUnits (withNodes p ch) = unitsOf ch"
  by (cases p) (auto simp: nonSplittable_def unitsOf_def)

lemma stateUnits_startNewChunk [simp]: "stateUnits (startNewChunk st) = stateUnits st"
  by (simp add: stateUnits_def startNewChunk_def)

lemma stateUnits_warn [simp]: "stateUnits (warn sz lim node st) = stateUnits st"
  by (simp add: stateUnits_def)

lemma stateUnits_flushIfOverflow [simp]:
  "stateUnits (flushIfOverflow sz lim node st) = stateUnits st"
  by (simp add: flushIfOverflow_def)

lemma stateUnits_placeOpaque [simp]:
  "stateUnits (placeOpaque sz node st) = stateUnits st @ atomicUnits node"
  by (simp add: stateUnits_def)

lemma atomicUnits_wrapShells:
  "splittableChain chain \<Longrightarrow> atomicUnits (wrapShells chain node) = atomicUnits node"
  by (induction chain)
    (simp_all add: splittableChain_def appendChild_def shell_def atomicUnits_withNodes
      children_withNodes)

lemma stateUnits_placeWhole:
  "splittableChain chain \<Longrightarrow>
   stateUnits (placeWhole sz node chain st) = stateUnits st @ atomicUnits node"
  by (simp add: placeWhole_def Let_def stateUnits_def startNewChunk_def atomicUnits_wrapShells)

lemma sameAtRule_splittable:
  "sameAtRule l p \<Longrightarrow> \<not> nonSplittable p \<Longrightarrow> n_type l = TAtRule \<and> \<not> nonSplittable l"
  by (simp add: sameAtRule_def nonSplittable_def)

lemma unitsOf_rebuild:
  "splittableChain chain \<Longrightarrow> rebuild sz chain node b = Inr (ns', k) \<Longrightarrow>
   unitsOf ns' = unitsOf (case b of None \<Rightarrow> [] | Some ns \<Rightarrow> ns) @ atomicUnits node"
proof (induction chain arbitrary: b ns' k)
  case Nil
  then show ?case by (cases b) auto
next
  case (Cons p ps)
  from Cons.prems(1) have p: "n_type p = TAtRule" "\<not> nonSplittable p" and ps: "splittableChain ps"
    by (simp_all add: splittableChain_def)
  from Cons.prems(2) obtain ns where b: "b = Some ns" by (cases b) auto
  show ?case
  proof (cases "ns \<noteq> [] \<and> sameAtRule (last ns) p")
    case True
    with Cons.prems(2) b obtain ch where
      r: "rebuild sz ps node (n_nodes (last ns)) = Inr (ch, k)"
      and ns': "ns' = butlast ns @ [withNodes (last ns) ch]"
      by (auto split: sum.splits prod.splits)
    from True p have l: "n_type (last ns) = TAtRule" "\<not> nonSplittable (last ns)"
      using sameAtRule_splittable by blast+
    from Cons.IH [OF ps r]
    have "unitsOf ch = unitsOf (children (last ns)) @ atomicUnits node"
      by (simp add: children_def)
    moreover have "atomicUnits (last ns) = unitsOf (children (last ns))"
      using l by (rule atomicUnits_splittable)
    ultimately
    have "atomicUnits (withNodes (last ns) ch) = atomicUnits (last ns) @ atomicUnits node"
      using l by (simp add: atomicUnits_withNodes)
    moreover have "unitsOf ns = unitsOf (butlast ns) @ atomicUnits (last ns)"
      using True by (metis append_butlast_last_id unitsOf_simps(1,2,3) append_Nil2)
    ultimately show ?thesis using ns' b by simp
  next
    case False
    with Cons.prems(2) b obtain ch k' where
      r: "rebuild sz ps node (Some []) = Inr (ch, k')"
      and ns': "ns' = ns @ [withNodes (shell p) ch]"
      by (auto split: sum.splits prod.splits if_splits)
    from Cons.IH [OF ps r] have "unitsOf ch = atomicUnits node" by simp
    moreover have "n_type (shell p) = TAtRule" "\<not> nonSplittable (shell p)"
      using p by (simp_all add: shell_def)
    ultimately show ?thesis using ns' b by (simp add: atomicUnits_withNodes)
  qed
qed

lemma stateUnits_place:
  "splittableChain chain \<Longrightarrow> place sz node chain st = Inr st' \<Longrightarrow>
   stateUnits st' = stateUnits st @ atomicUnits node"
  by (auto simp: place_def stateUnits_def split: if_splits sum.splits prod.splits
      dest!: unitsOf_rebuild)

lemma stateUnits_addNode:
  "addNode sz lim node chain st = Inr st' \<Longrightarrow> splittableChain chain \<Longrightarrow>
     stateUnits st' = stateUnits st @ atomicUnits node"
  "forEach sz lim ns chain st = Inr st' \<Longrightarrow> splittableChain chain \<Longrightarrow>
     stateUnits st' = stateUnits st @ unitsOf ns"
proof (induction sz lim node chain st and sz lim ns chain st arbitrary: st' and st'
    rule: addNode_forEach.induct)
  case (1 sz lim node chain st)
  let ?st1 = "warn sz lim node st"
  show ?case
  proof (cases "overflowingAtRule sz lim node ?st1")
    case over: True
    show ?thesis
    proof (cases "nonSplittable node")
      case True
      with over "1.prems" show ?thesis
        by (auto simp: addNode_whole stateUnits_placeWhole)
    next
      case ns: False
      show ?thesis
      proof (cases "hasActualContent node")
        case False
        with over ns "1.prems" show ?thesis
          by (auto simp: addNode_opaque)
      next
        case True
        with over ns "1.prems"
        have run: "forEach sz lim (children node) (chain @ [node]) ?st1 = Inr st'"
          by (simp add: addNode_split)
        from over have at: "n_type node = TAtRule" by (simp add: overflowingAtRule_def)
        with ns "1.prems"(2) have "splittableChain (chain @ [node])"
          by (simp add: splittableChain_def)
        from "1.IH" [OF refl over ns _ run this] True
        have "stateUnits st' = stateUnits ?st1 @ unitsOf (children node)" by simp
        with at ns show ?thesis by (simp add: atomicUnits_splittable)
      qed
    qed
  next
    case False
    define st2 where "st2 = flushIfOverflow sz lim node ?st1"
    from False "1.prems"(1) have "place sz node chain st2 = Inr st'"
      by (simp add: addNode_normal st2_def)
    with "1.prems"(2) have "stateUnits st' = stateUnits st2 @ atomicUnits node"
      by (rule stateUnits_place)
    moreover have "stateUnits st2 = stateUnits st" by (simp add: st2_def)
    ultimately show ?thesis by simp
  qed
next
  case (2 sz lim chain st)
  then show ?case by simp
next
  case (3 sz lim child rest chain st)
  then show ?case by (auto split: sum.splits)
qed

text \<open>
  Whenever \<^verbatim>\<open>Once\<close> completes, the at-rules named keyframes, font-face, page or counter-style
  found in the chunks, read chunk after chunk, are exactly those of the input, in the same
  order and as often: each is in one chunk with its whole subtree, and no chunk holds a part
  of one. \<^verbatim>\<open>Once\<close> does complete on every input that is free of clashes.
\<close>

lemma atomic_units_of_completed_run:
  "(clashFree nodes \<longrightarrow> (\<exists>r. Once sz lim nodes = Inr r))
   \<and> (Once sz lim nodes = Inr r \<longrightarrow> concat (map unitsOf (chunks r)) = unitsOf nodes)"
proof (intro conjI impI)
  show "\<exists>r. Once sz lim nodes = Inr r" if "clashFree nodes"
    using that by (rule Once_completes)
  show "concat (map unitsOf (chunks r)) = unitsOf nodes" if "Once sz lim nodes = Inr r"
  proof -
    from that obtain st where run: "forEach sz lim nodes [] initState = Inr st"
      and r: "chunks r = finalChunks (startNewChunk st)"
      by (auto simp: Once_def split: sum.splits)
    have "stateUnits st = stateUnits initState @ unitsOf nodes"
      using run by (rule stateUnits_addNode(2)) (simp add: splittableChain_def)
    then have "stateUnits st = unitsOf nodes"
      by (simp add: stateUnits_def initState_def)
    moreover have "concat (map unitsOf (finalChunks (startNewChunk st))) = stateUnits st"
      by (simp add: stateUnits_def startNewChunk_def)
    ultimately show ?thesis using r by simp
  qed
qed

lemma atomic_units_example:
  "clashFree [exRuleA, exMediaKeyframes]
   \<and> (\<exists>r. Once cssBytes 40 [exRuleA, exMediaKeyframes] = Inr r
         \<and> length (chunks r) = 3
         \<and> concat (map unitsOf (chunks r)) = [exKeyframes])"
proof -
  let ?run = "Once cssBytes 40 [exRuleA, exMediaKeyframes]"
  have c: "clashFree [exRuleA, exMediaKeyframes]" by code_simp
  have u: "unitsOf [exRuleA, exMediaKeyframes] = [exKeyframes]" by code_simp
  have n: "length (chunks (projr ?run)) = 3" by code_simp
  from atomic_units_of_completed_run [of "[exRuleA, exMediaKeyframes]" cssBytes 40] c
  obtain r where r: "?run = Inr r" by blast
  with atomic_units_of_completed_run [of "[exRuleA, exMediaKeyframes]" cssBytes 40 r] u
  have "concat (map unitsOf (chunks r)) = [exKeyframes]" by simp
  with c r n show ?thesis by simp
qed

text \<open>
  Claim C3: for every input, every at-rule named keyframes, font-face, page or counter-style
  appears whole inside exactly one chunk. The run is lost to the missed case of lines 136 to
  141 before any chunk is handed out: under limit 30 the root
  \<^verbatim>\<open>@keyframes k{from{opacity:0}to{opacity:1}}@layer a;@layer a{@media print{.a{color:red}.b{color:red}}}\<close>
  has its keyframes block placed whole, a new chunk started for \<^verbatim>\<open>@layer a\<close>, and then the
  statement taken for the shell of the layer block: line 134 reads \<^verbatim>\<open>nodes.length\<close> of
  \<^verbatim>\<open>undefined\<close> and throws, line 172 is never reached, and the keyframes block of the input
  is in no chunk.
\<close>

theorem atomicity_failing_input:
  "Once cssBytes 30 [exKeyframes, exLayerStatement, exLayerMedia] = Inl TypeError
   \<and> unitsOf [exKeyframes, exLayerStatement, exLayerMedia] = [exKeyframes]"
  by code_simp

section \<open>Runs that never start a second chunk\<close>

lemma addNode_fits:
  assumes "lim = 0 \<or> currentChunkSize st + sz node \<le> lim"
  shows "addNode sz lim node [] st = Inr (appendRoot sz [node] st)"
proof -
  from assms have w: "warn sz lim node st = st" by (auto simp: warn_def)
  from assms have "\<not> overflowingAtRule sz lim node st" by (auto simp: overflowingAtRule_def)
  moreover from assms have "flushIfOverflow sz lim node st = st"
    by (auto simp: flushIfOverflow_def)
  ultimately show ?thesis
    by (simp add: addNode_normal w place_def appendRoot_def)
qed

lemma forEach_fits:
  "lim = 0 \<or> currentChunkSize st + sum_list (map sz ns) \<le> lim \<Longrightarrow>
   forEach sz lim ns [] st = Inr (appendRoot sz ns st)"
proof (induction ns arbitrary: st)
  case Nil
  show ?case by (simp add: appendRoot_def)
next
  case (Cons n ns)
  from Cons.prems have "lim = 0 \<or> currentChunkSize st + sz n \<le> lim" by auto
  then have step: "addNode sz lim n [] st = Inr (appendRoot sz [n] st)" by (rule addNode_fits)
  from Cons.prems
  have "lim = 0 \<or> currentChunkSize (appendRoot sz [n] st) + sum_list (map sz ns) \<le> lim"
    by (auto simp: appendRoot_def)
  from Cons.IH [OF this] step show ?case by (simp add: appendRoot_def)
qed

lemma Once_fits:
  assumes "nodes \<noteq> []" and "lim = 0 \<or> sum_list (map sz nodes) \<le> lim"
  shows "Once sz lim nodes = Inr \<lparr>chunks = [nodes], reported = [], root = []\<rparr>"
proof -
  from assms(2) have "forEach sz lim nodes [] initState = Inr (appendRoot sz nodes initState)"
    by (intro forEach_fits) (simp add: initState_def)
  with assms(1) show ?thesis
    by (simp add: Once_def appendRoot_def initState_def startNewChunk_def removeAll_root_def)
qed

text \<open>
  Claim C8, as stated: an input whose total size is at most the limit gives exactly one
  chunk. The empty root has total size 0 and gives no chunk, for every limit.
\<close>

theorem no_split_counterexample:
  "sum_list (map cssBytes []) \<le> (100::nat)
   \<and> Once cssBytes 100 [] = Inr \<lparr>chunks = [], reported = [], root = []\<rparr>
   \<and> length ([] :: node list list) \<noteq> 1"
  by (simp add: Once_def initState_def startNewChunk_def removeAll_root_def)

text \<open>
  Claim C8, amended: for every input with at least one node, if the sizes of the top-level
  nodes add up to at most the limit, there is exactly one chunk, it holds every top-level
  node in order, and nothing is reported. The serialization of a root is at least as long as
  those of its nodes together, so an input whose total serialized size is within the limit
  satisfies the hypothesis.
\<close>

theorem no_split_within_limit:
  assumes "nodes \<noteq> []" and "sum_list (map sz nodes) \<le> lim"
  shows "Once sz lim nodes = Inr \<lparr>chunks = [nodes], reported = [], root = []\<rparr>"
  using assms by (simp add: Once_fits)

theorem no_split_within_limit_witness:
  "[exRuleA, exRuleB] \<noteq> [] \<and> sum_list (map cssBytes [exRuleA, exRuleB]) \<le> 26
   \<and> Once cssBytes 26 [exRuleA, exRuleB]
       = Inr \<lparr>chunks = [[exRuleA, exRuleB]], reported = [], root = []\<rparr>"
proof -
  have a: "[exRuleA, exRuleB] \<noteq> []" by simp
  have b: "sum_list (map cssBytes [exRuleA, exRuleB]) \<le> 26" by code_simp
  from no_split_within_limit [OF a b] a b show ?thesis by simp
qed

text \<open>What the code does under limit 0: the tests \<^verbatim>\<open>size &&\<close> of lines 35, 53 and 122 all
  fail, since 0 is falsy, so no chunk is ever finished before the end and nothing is
  reported.\<close>

lemma limit_zero_never_splits:
  assumes "nodes \<noteq> []"
  shows "Once sz 0 nodes = Inr \<lparr>chunks = [nodes], reported = [], root = []\<rparr>"
  using assms by (simp add: Once_fits)

text \<open>
  Claim C5: with \<open>sizeLimit = 0\<close> every non-empty top-level node gets a chunk of its own, as
  the repository's test for size 0 also says (\<^verbatim>\<open>Size of 0 should force splitting\<close>). The
  guard \<^verbatim>\<open>size &&\<close>, which stands for a limit that is not set, also catches the limit 0:
  \<^verbatim>\<open>.a{color:red}\<close> and \<^verbatim>\<open>.b{color:red}\<close> under limit 0 share one chunk.
\<close>

theorem limit_zero_failing_input:
  "Once cssBytes 0 [exRuleA, exRuleB]
     = Inr \<lparr>chunks = [[exRuleA, exRuleB]], reported = [], root = []\<rparr>"
  by code_simp

section \<open>Chunk count and the limit\<close>

text \<open>A top-level node that is no at-rule with children, and one of the fixed list, are
  appended after the test of lines 121 to 124 or its like at lines 65 to 67.\<close>

lemma addNode_flat:
  assumes "\<not> (n_type node = TAtRule \<and> hasNodes node)"
  shows "addNode sz lim node [] st =
    Inr (appendRoot sz [node] (flushIfOverflow sz lim node (warn sz lim node st)))"
proof -
  from assms have "\<not> overflowingAtRule sz lim node (warn sz lim node st)"
    by (auto simp: overflowingAtRule_def)
  then show ?thesis by (simp add: addNode_normal place_def appendRoot_def)
qed

lemma addNode_kept_whole_top:
  assumes "n_type node = TAtRule" and "hasNodes node" and "nonSplittable node"
  shows "addNode sz lim node [] st =
    Inr (appendRoot sz [node] (flushIfOverflow sz lim node (warn sz lim node st)))"
proof (cases "overflowingAtRule sz lim node (warn sz lim node st)")
  case True
  with assms(3) show ?thesis
    by (auto simp: addNode_whole placeWhole_def Let_def appendRoot_def flushIfOverflow_def
        overflowingAtRule_def)
next
  case False
  then show ?thesis by (simp add: addNode_normal place_def appendRoot_def)
qed

text \<open>A top-level at-rule with children but without actual content is appended without any
  such test, under every limit.\<close>

lemma addNode_opaque_top:
  assumes "n_type node = TAtRule" and "hasNodes node" and "\<not> nonSplittable node"
    and "\<not> hasActualContent node"
  shows "addNode sz lim node [] st = Inr (appendRoot sz [node] (warn sz lim node st))"
proof (cases "overflowingAtRule sz lim node (warn sz lim node st)")
  case True
  with assms(3,4) show ?thesis
    by (simp add: addNode_opaque placeOpaque_def appendRoot_def)
next
  case False
  with assms(1,2) have "flushIfOverflow sz lim node (warn sz lim node st) = warn sz lim node st"
    by (auto simp: overflowingAtRule_def flushIfOverflow_def)
  with False show ?thesis by (simp add: addNode_normal place_def appendRoot_def)
qed

lemma ahead_step:
  assumes "ahead sa sb" and "0 < a" and "a \<le> b"
  shows "ahead (appendRoot sz [n] (flushIfOverflow sz a n (warn sz a n sa)))
               (appendRoot sz [n] (flushIfOverflow sz b n (warn sz b n sb)))"
  using assms
  by (auto simp: ahead_def appendRoot_def flushIfOverflow_def chunkCount_def startNewChunk_def)

lemma ahead_opaque_step:
  assumes "ahead sa sb"
  shows "ahead (appendRoot sz [n] (warn sz a n sa)) (appendRoot sz [n] (warn sz b n sb))"
  using assms
  by (auto simp: ahead_def appendRoot_def chunkCount_def startNewChunk_def)

lemma addNode_ahead:
  assumes "\<not> splitsAtTop n" and "0 < a" and "a \<le> b" and "ahead sa sb"
  shows "\<exists>sa' sb'. addNode sz a n [] sa = Inr sa' \<and> addNode sz b n [] sb = Inr sb'
           \<and> ahead sa' sb'"
proof (cases "n_type n = TAtRule \<and> hasNodes n")
  case False
  with ahead_step [OF assms(4,2,3), of sz n] show ?thesis by (simp add: addNode_flat)
next
  case block: True
  show ?thesis
  proof (cases "nonSplittable n")
    case True
    with block ahead_step [OF assms(4,2,3), of sz n] show ?thesis
      by (simp add: addNode_kept_whole_top)
  next
    case False
    with block assms(1) have "\<not> hasActualContent n" by (simp add: splitsAtTop_def)
    with block False ahead_opaque_step [OF assms(4), of sz n a b] show ?thesis
      by (simp add: addNode_opaque_top)
  qed
qed

lemma forEach_ahead:
  assumes "neverSplit ns" and "0 < a" and "a \<le> b" and "ahead sa sb"
  shows "\<exists>sa' sb'. forEach sz a ns [] sa = Inr sa' \<and> forEach sz b ns [] sb = Inr sb'
           \<and> ahead sa' sb'"
  using assms
proof (induction ns arbitrary: sa sb)
  case Nil
  then show ?case by simp
next
  case (Cons n ns)
  from Cons.prems(1) have n: "\<not> splitsAtTop n" and ns: "neverSplit ns"
    by (simp_all add: neverSplit_def)
  from addNode_ahead [OF n Cons.prems(2,3,4), of sz] obtain sa1 sb1 where
    s: "addNode sz a n [] sa = Inr sa1" "addNode sz b n [] sb = Inr sb1" and "ahead sa1 sb1"
    by blast
  from Cons.IH [OF ns Cons.prems(2,3) this(3)] s show ?case by simp
qed

text \<open>
  Claim C9, as stated: for every input and limits \<open>a < b\<close>, limit \<open>a\<close> gives at least as
  many chunks as limit \<open>b\<close>. It fails in two ways. Under limit 0 nothing is split: two rules
  give one chunk under limit 0 and two under limit 20. And a split at-rule can reuse the
  shell before it: two \<^verbatim>\<open>@media print\<close> blocks followed by \<^verbatim>\<open>.c{}\<close> give one chunk under
  limit 53, where the second block is split and its rule joins the first block, and two
  chunks under limit 54, where the second block is kept and \<^verbatim>\<open>.c{}\<close> no longer fits.
\<close>

theorem monotonic_chunk_count_counterexample:
  "Once cssBytes 0 [exRuleA, exRuleB]
     = Inr \<lparr>chunks = [[exRuleA, exRuleB]], reported = [], root = []\<rparr>
   \<and> Once cssBytes 20 [exRuleA, exRuleB]
     = Inr \<lparr>chunks = [[exRuleA], [exRuleB]], reported = [], root = []\<rparr>
   \<and> Once cssBytes 53 [exPrintA, exPrintB, exRuleC]
     = Inr \<lparr>chunks = [[exPrintAB, exRuleC]], reported = [], root = []\<rparr>
   \<and> Once cssBytes 54 [exPrintA, exPrintB, exRuleC]
     = Inr \<lparr>chunks = [[exPrintA, exPrintB], [exRuleC]], reported = [], root = []\<rparr>"
  by code_simp

text \<open>
  Claim C9, amended: for every input that is never split (no top-level node is an at-rule
  with children, outside the fixed list, that holds a rule or an at-rule with children) and
  every pair of limits \<open>0 < a < b\<close>, both runs complete and limit \<open>a\<close> gives at least as many
  chunks as limit \<open>b\<close>. Rules, declarations, comments, at-rules without children, the
  at-rules of the fixed list and at-rules without actual content may all occur. Splitting
  with shell reuse is the design that the second pair of runs above shows; what limit 0
  does is left out.
\<close>

theorem monotonic_chunk_count_unsplit:
  assumes "neverSplit nodes" and "0 < a" and "a < b"
  shows "\<exists>ra rb. Once sz a nodes = Inr ra \<and> Once sz b nodes = Inr rb
           \<and> length (chunks rb) \<le> length (chunks ra)"
proof -
  have "ahead initState initState" by (simp add: ahead_def)
  with assms obtain sa sb where
    "forEach sz a nodes [] initState = Inr sa" "forEach sz b nodes [] initState = Inr sb"
    "ahead sa sb"
    using forEach_ahead [of nodes a b initState initState sz] by auto
  then show ?thesis by (auto simp: Once_def ahead_def chunkCount_def)
qed

theorem monotonic_chunk_count_unsplit_witness:
  "neverSplit [exRuleA, exKeyframes, exViewTransition, exRuleB]
   \<and> (0::nat) < 20 \<and> (20::nat) < 60
   \<and> length (chunks (projr (Once cssBytes 20 [exRuleA, exKeyframes, exViewTransition, exRuleB])))
       = 3
   \<and> length (chunks (projr (Once cssBytes 60 [exRuleA, exKeyframes, exViewTransition, exRuleB])))
       = 2
   \<and> (\<exists>ra rb. Once cssBytes 20 [exRuleA, exKeyframes, exViewTransition, exRuleB] = Inr ra
         \<and> Once cssBytes 60 [exRuleA, exKeyframes, exViewTransition, exRuleB] = Inr rb
         \<and> length (chunks rb) \<le> length (chunks ra))"
proof -
  have a: "neverSplit [exRuleA, exKeyframes, exViewTransition, exRuleB]" by code_simp
  have b: "(0::nat) < 20" and c: "(20::nat) < 60" by simp_all
  have d: "length (chunks (projr
      (Once cssBytes 20 [exRuleA, exKeyframes, exViewTransition, exRuleB]))) = 3"
    by code_simp
  have e: "length (chunks (projr
      (Once cssBytes 60 [exRuleA, exKeyframes, exViewTransition, exRuleB]))) = 2"
    by code_simp
  from monotonic_chunk_count_unsplit [OF a b c, of cssBytes] a d e show ?thesis by simp
qed

section \<open>Warnings\<close>

lemma warnings_warn: "warnings (warn sz lim node st) = warnings st @ ownWarning sz lim node"
  by (simp add: warn_def ownWarning_def)

lemma warnings_addNode:
  "addNode sz lim node chain st = Inr st' \<Longrightarrow>
     \<exists>ws. warnings st' = warnings st @ ownWarning sz lim node @ ws
          \<and> list_all (oversizeOf sz lim (descendants node)) ws"
  "forEach sz lim ns chain st = Inr st' \<Longrightarrow>
     \<exists>ws. warnings st' = warnings st @ ws \<and> list_all (oversizeOf sz lim (subtrees ns)) ws"
proof (induction sz lim node chain st and sz lim ns chain st arbitrary: st' and st'
    rule: addNode_forEach.induct)
  case (1 sz lim node chain st)
  let ?st1 = "warn sz lim node st"
  show ?case
  proof (cases "overflowingAtRule sz lim node ?st1")
    case over: True
    show ?thesis
    proof (cases "nonSplittable node")
      case True
      with over "1.prems" have "warnings st' = warnings st @ ownWarning sz lim node"
        by (auto simp: addNode_whole warnings_warn)
      then show ?thesis by simp
    next
      case ns: False
      show ?thesis
      proof (cases "hasActualContent node")
        case False
        with over ns "1.prems" have "warnings st' = warnings st @ ownWarning sz lim node"
          by (auto simp: addNode_opaque warnings_warn)
        then show ?thesis by simp
      next
        case True
        with over ns "1.prems"
        have run: "forEach sz lim (children node) (chain @ [node]) ?st1 = Inr st'"
          by (simp add: addNode_split)
        from "1.IH" [OF refl over ns _ run] True
        obtain ws where "warnings st' = warnings ?st1 @ ws"
          "list_all (oversizeOf sz lim (subtrees (children node))) ws" by auto
        then show ?thesis by (auto simp: warnings_warn descendants_children)
      qed
    qed
  next
    case False
    with "1.prems"(1)
    have "place sz node chain (flushIfOverflow sz lim node ?st1) = Inr st'"
      by (simp add: addNode_normal)
    then have "warnings st' = warnings st @ ownWarning sz lim node"
      by (simp add: place_fields(2) warnings_warn)
    then show ?thesis by simp
  qed
next
  case (2 sz lim chain st)
  then show ?case by simp
next
  case (3 sz lim child rest chain st)
  from "3.prems" obtain st1 where a: "addNode sz lim child chain st = Inr st1"
    and f: "forEach sz lim rest chain st1 = Inr st'"
    by (auto split: sum.splits)
  from "3.IH"(1) [OF a] obtain ws1 where
    w1: "warnings st1 = warnings st @ ownWarning sz lim child @ ws1"
    and o1: "list_all (oversizeOf sz lim (descendants child)) ws1" by auto
  from "3.IH"(2) [OF a f] obtain ws2 where
    w2: "warnings st' = warnings st1 @ ws2"
    and o2: "list_all (oversizeOf sz lim (subtrees rest)) ws2" by auto
  have "list_all (oversizeOf sz lim (subtrees (child # rest)))
          (ownWarning sz lim child @ ws1 @ ws2)"
    using o1 o2
    by (auto simp: list_all_iff oversizeOf_def subtrees_def ownWarning_def oversizeWarning_def)
  with w1 w2 show ?case by auto
qed

text \<open>
  Whenever a call of \<^verbatim>\<open>addNode\<close> returns, the warnings it added start with the visit's own:
  exactly one if the limit is positive and the node's size exceeds it, none otherwise. That
  warning records the node, and its text names the first selector of a rule, or else the
  \<^verbatim>\<open>name\<close> of the node (the name of an at-rule, \<^verbatim>\<open>undefined\<close> for a declaration or a comment),
  the size, the limit, and that the node cannot be split. Every further warning of the call
  belongs to a proper descendant of the node whose own size exceeds the limit. Reporting
  changes nothing but the warning list, so it never ends the run.
\<close>

lemma one_warning_per_oversize_visit:
  "warn sz lim node st = st\<lparr>warnings := warnings st @ ownWarning sz lim node\<rparr>
   \<and> (addNode sz lim node chain st = Inr st' \<longrightarrow>
        (\<exists>ws. warnings st' = warnings st @ ownWarning sz lim node @ ws
              \<and> list_all (oversizeOf sz lim (descendants node)) ws))"
proof (intro conjI impI)
  show "warn sz lim node st = st\<lparr>warnings := warnings st @ ownWarning sz lim node\<rparr>"
    by (simp add: warn_def ownWarning_def)
  show "\<exists>ws. warnings st' = warnings st @ ownWarning sz lim node @ ws
           \<and> list_all (oversizeOf sz lim (descendants node)) ws"
    if "addNode sz lim node chain st = Inr st'"
    using that by (rule warnings_addNode(1))
qed

lemma oversize_warning_example:
  "\<exists>st'. addNode cssBytes 5 exPrintAB [] initState = Inr st'
     \<and> map w_node (warnings st') = [exPrintAB, exRuleA, exRuleB]
     \<and> w_text (hd (warnings st'))
         = ''@-rule '' @ [CHR 0x27] @ ''@media'' @ [CHR 0x27]
           @ '' has an estimated size of 40 bytes, exceeding the 5 byte limit and cannot be split.''
     \<and> w_text (last (warnings st'))
         = ''starting with selector '' @ [CHR 0x27] @ ''.b'' @ [CHR 0x27]
           @ '' has an estimated size of 13 bytes, exceeding the 5 byte limit and cannot be split.''
     \<and> (\<exists>ws. warnings st' = warnings initState @ ownWarning cssBytes 5 exPrintAB @ ws
           \<and> list_all (oversizeOf cssBytes 5 (descendants exPrintAB)) ws)"
proof -
  let ?run = "addNode cssBytes 5 exPrintAB [] initState"
  have "\<not> isl ?run" by code_simp
  then obtain st' where r: "?run = Inr st'" by (cases ?run) auto
  have "map w_node (warnings (projr ?run)) = [exPrintAB, exRuleA, exRuleB]" by code_simp
  moreover have "w_text (hd (warnings (projr ?run)))
         = ''@-rule '' @ [CHR 0x27] @ ''@media'' @ [CHR 0x27]
           @ '' has an estimated size of 40 bytes, exceeding the 5 byte limit and cannot be split.''"
    by code_simp
  moreover have "w_text (last (warnings (projr ?run)))
         = ''starting with selector '' @ [CHR 0x27] @ ''.b'' @ [CHR 0x27]
           @ '' has an estimated size of 13 bytes, exceeding the 5 byte limit and cannot be split.''"
    by code_simp
  ultimately show ?thesis
    using one_warning_per_oversize_visit [of cssBytes 5 exPrintAB initState "[]" st'] r
    by simp
qed

text \<open>An oversize comment is reported under the name \<^verbatim>\<open>undefined\<close>.\<close>

lemma oversize_comment_text:
  "warningText 5 3 (Comment ''x'')
     = ''@-rule '' @ [CHR 0x27] @ ''@undefined'' @ [CHR 0x27]
       @ '' has an estimated size of 5 bytes, exceeding the 3 byte limit and cannot be split.''"
  by code_simp

text \<open>
  Claim C7: every visit of a node whose size exceeds the limit reports exactly one warning.
  The guard \<^verbatim>\<open>size &&\<close> of line 35 also catches the limit 0, as at lines 53 and 122: under
  limit 0 the rule \<^verbatim>\<open>.a{color:red}\<close> has 13 bytes, more than the limit, and its visit reports
  nothing.
\<close>

theorem oversize_warning_failing_input:
  "(0::nat) < cssBytes exRuleA
   \<and> addNode cssBytes 0 exRuleA [] initState
       = Inr \<lparr>finalChunks = [], currentChunk = [exRuleA], currentChunkSize = 13,
              warnings = []\<rparr>
   \<and> Once cssBytes 0 [exRuleA]
       = Inr \<lparr>chunks = [[exRuleA]], reported = [], root = []\<rparr>"
  by code_simp

section \<open>The source root\<close>

lemma children_valueOf: "children (valueOf ob) = map valueOf (kidsOf ob)"
  by (cases ob rule: kidsOf.cases) (simp_all add: children_def)

text \<open>Appending a copy leaves the source tree alone; appending an object of the tree itself
  takes it out of the tree.\<close>

lemma adopt_clone [simp]: "adopt src (clone h) = src" "adopt src (cloneShell h) = src"
  by (simp_all add: clone_def cloneShell_def)

lemma adopt_parsed_detaches:
  "ob \<in> set src \<Longrightarrow> length (adopt src (Parsed ob)) < length src"
  by (auto simp: detach_def intro!: length_filter_less)

lemma foldl_adopt_copies:
  "list_all (\<lambda>h. \<exists>v. h = Copy v) hs \<Longrightarrow> foldl adopt src hs = src"
  by (induction hs arbitrary: src) auto

lemma shellsMade_copies: "list_all (\<lambda>h. \<exists>v. h = Copy v) (shellsMade chain b)"
proof (induction chain b rule: shellsMade.induct)
  case (3 p ps ns)
  then show ?case by (simp add: cloneShell_def)
qed simp_all

lemma placeO_keeps:
  "placeO sz ob chain (src, st) =
     (case place sz (valueOf ob) (map valueOf chain) st of
        Inl e \<Rightarrow> Inl e | Inr st' \<Rightarrow> Inr (src, st'))"
  by (simp add: placeO_def foldl_adopt_copies shellsMade_copies clone_def split: sum.splits)

lemma placeWholeO_keeps:
  "placeWholeO sz ob chain (src, st) = (src, placeWhole sz (valueOf ob) (map valueOf chain) st)"
  by (simp add: placeWholeO_def foldl_adopt_copies list_all_iff clone_def cloneShell_def)

lemma placeOpaqueO_keeps:
  "placeOpaqueO sz ob (src, st) = (src, placeOpaque sz (valueOf ob) st)"
  by (simp add: placeOpaqueO_def)

text \<open>The run on objects builds what the run on values builds, and hands the source tree
  on as it got it.\<close>

lemma addNodeO_keeps:
  "addNodeO sz lim ob chain s =
     (case addNode sz lim (valueOf ob) (map valueOf chain) (snd s) of
        Inl e \<Rightarrow> Inl e | Inr st' \<Rightarrow> Inr (fst s, st'))"
  "forEachO sz lim obs chain s =
     (case forEach sz lim (map valueOf obs) (map valueOf chain) (snd s) of
        Inl e \<Rightarrow> Inl e | Inr st' \<Rightarrow> Inr (fst s, st'))"
proof (induction sz lim ob chain s and sz lim obs chain s rule: addNodeO_forEachO.induct)
  case (1 sz lim ob chain s)
  obtain src st where s: "s = (src, st)" by (cases s)
  let ?v = "valueOf ob"
  let ?st1 = "warn sz lim ?v st"
  show ?case
  proof (cases "overflowingAtRule sz lim ?v ?st1")
    case over: True
    show ?thesis
    proof (cases "nonSplittable ?v")
      case True
      with over s show ?thesis
        by (simp add: addNodeO.simps [of sz lim ob chain] Let_def addNode_whole
            placeWholeO_keeps)
    next
      case ns: False
      show ?thesis
      proof (cases "hasActualContent ?v")
        case False
        with over ns s show ?thesis
          by (simp add: addNodeO.simps [of sz lim ob chain] Let_def addNode_opaque
              placeOpaqueO_keeps)
      next
        case True
        from "1.IH" [OF refl refl _ ns] over True s
        have "forEachO sz lim (kidsOf ob) (chain @ [ob]) (src, ?st1) =
           (case forEach sz lim (map valueOf (kidsOf ob)) (map valueOf (chain @ [ob])) ?st1 of
              Inl e \<Rightarrow> Inl e | Inr st' \<Rightarrow> Inr (src, st'))"
          by (simp split: sum.splits)
        with over ns True show ?thesis
          unfolding s
          by (simp add: addNodeO.simps [of sz lim ob chain] Let_def addNode_split
              children_valueOf split: sum.splits)
      qed
    qed
  next
    case False
    with s show ?thesis
      by (simp add: addNodeO.simps [of sz lim ob chain] Let_def addNode_normal placeO_keeps
          split: sum.splits)
  qed
next
  case (2 sz lim chain s)
  show ?case by simp
next
  case (3 sz lim child rest chain s)
  show ?case
  proof (cases "addNode sz lim (valueOf child) (map valueOf chain) (snd s)")
    case (Inl e)
    with "3.IH"(1) show ?thesis by simp
  next
    case (Inr st1)
    with "3.IH"(1) have a: "addNodeO sz lim child chain s = Inr (fst s, st1)" by simp
    from "3.IH"(2) [OF a] a Inr show ?thesis by (simp split: sum.splits)
  qed
qed

text \<open>
  Claim C4, as stated: after processing, the source tree is unchanged. The root that held
  \<^verbatim>\<open>.a{color:red}\<close> has no child when \<^verbatim>\<open>Once\<close> returns.
\<close>

theorem source_root_counterexample:
  "Once cssBytes 20 [exRuleA] = Inr \<lparr>chunks = [[exRuleA]], reported = [], root = []\<rparr>
   \<and> [exRuleA] \<noteq> ([] :: node list)"
  by code_simp

text \<open>
  Claim C4, amended: every \<^verbatim>\<open>append\<close> of the source receives a clone, so no call of
  \<^verbatim>\<open>addNode\<close> and no loop over nodes takes an object out of the source tree: whenever one
  returns, the source root holds the objects it held before, and the chunks are those of the
  run on values. When the chunks are built, line 182 removes every child from the source
  root, so a run of \<^verbatim>\<open>Once\<close> that completes leaves the root empty.
\<close>

theorem source_kept_then_emptied:
  "(addNodeO sz lim ob chain (src, st) = Inr (src', st') \<longrightarrow>
      src' = src \<and> addNode sz lim (valueOf ob) (map valueOf chain) st = Inr st')
   \<and> (forEachO sz lim obs chain (src, st) = Inr (src', st') \<longrightarrow>
      src' = src \<and> forEach sz lim (map valueOf obs) (map valueOf chain) st = Inr st')
   \<and> (OnceO sz lim objs = Inr (rootAfter, r) \<longrightarrow>
      rootAfter = [] \<and> root r = [] \<and> Once sz lim (map valueOf objs) = Inr r)"
  by (auto simp: OnceO_def Once_def addNodeO_keeps removeAll_root_def removeAllO_def
      split: sum.splits)

theorem source_kept_then_emptied_witness:
  "addNodeO cssBytes 20 exObjB [] ([exObjA, exObjB],
       \<lparr>finalChunks = [], currentChunk = [exRuleA], currentChunkSize = 13, warnings = []\<rparr>)
     = Inr ([exObjA, exObjB],
       \<lparr>finalChunks = [[exRuleA]], currentChunk = [exRuleB], currentChunkSize = 13,
        warnings = []\<rparr>)
   \<and> forEachO cssBytes 20 [exObjA, exObjB] [] ([exObjA, exObjB], initState)
     = Inr ([exObjA, exObjB],
       \<lparr>finalChunks = [[exRuleA]], currentChunk = [exRuleB], currentChunkSize = 13,
        warnings = []\<rparr>)
   \<and> OnceO cssBytes 20 [exObjA, exObjB]
     = Inr ([], \<lparr>chunks = [[exRuleA], [exRuleB]], reported = [], root = []\<rparr>)
   \<and> Once cssBytes 20 (map valueOf [exObjA, exObjB])
     = Inr \<lparr>chunks = [[exRuleA], [exRuleB]], reported = [], root = []\<rparr>"
proof -
  let ?mid = "\<lparr>finalChunks = [], currentChunk = [exRuleA], currentChunkSize = 13,
       warnings = []\<rparr>"
  let ?end = "\<lparr>finalChunks = [[exRuleA]], currentChunk = [exRuleB], currentChunkSize = 13,
       warnings = []\<rparr>"
  let ?r = "\<lparr>chunks = [[exRuleA], [exRuleB]], reported = [], root = []\<rparr>"
  have a: "addNodeO cssBytes 20 exObjB [] ([exObjA, exObjB], ?mid)
      = Inr ([exObjA, exObjB], ?end)"
    by code_simp
  have b: "forEachO cssBytes 20 [exObjA, exObjB] [] ([exObjA, exObjB], initState)
      = Inr ([exObjA, exObjB], ?end)"
    by code_simp
  have c: "OnceO cssBytes 20 [exObjA, exObjB] = Inr ([], ?r)"
    by code_simp
  from source_kept_then_emptied [of cssBytes 20 exObjB "[]" "[exObjA, exObjB]" ?mid
      "[exObjA, exObjB]" ?end "[exObjA, exObjB]" "[exObjA, exObjB]" "[]" ?r] a b c
  show ?thesis by simp
qed

section \<open>Budget and nesting\<close>

text \<open>What lines 126 to 162 and lines 70 to 85 build does hold the node under the chain.\<close>

lemma sameAtRule_withNodes: "n_type p = TAtRule \<Longrightarrow> sameAtRule (withNodes p ch) p"
  by (simp add: sameAtRule_def)

lemma nestedUnder_rebuild:
  "list_all (\<lambda>p. n_type p = TAtRule) chain \<Longrightarrow> rebuild sz chain node b = Inr (ns', k) \<Longrightarrow>
   nestedUnder chain node ns'"
proof (induction chain arbitrary: b ns' k)
  case Nil
  then show ?case by (cases b) auto
next
  case (Cons p ps)
  from Cons.prems(1) have p: "n_type p = TAtRule" and ps: "list_all (\<lambda>p. n_type p = TAtRule) ps"
    by simp_all
  from Cons.prems(2) obtain ns where b: "b = Some ns" by (cases b) auto
  show ?case
  proof (cases "ns \<noteq> [] \<and> sameAtRule (last ns) p")
    case True
    with Cons.prems(2) b obtain ch where
      r: "rebuild sz ps node (n_nodes (last ns)) = Inr (ch, k)"
      and ns': "ns' = butlast ns @ [withNodes (last ns) ch]"
      by (auto split: sum.splits prod.splits)
    from True have l: "n_type (last ns) = TAtRule" by (simp add: sameAtRule_def)
    from True have "sameAtRule (withNodes (last ns) ch) p" by (simp add: sameAtRule_def)
    with Cons.IH [OF ps r] l ns' show ?thesis by (simp add: children_withNodes)
  next
    case False
    with Cons.prems(2) b obtain ch k' where
      r: "rebuild sz ps node (Some []) = Inr (ch, k')"
      and ns': "ns' = ns @ [withNodes (shell p) ch]"
      by (auto split: sum.splits prod.splits if_splits)
    from Cons.IH [OF ps r] p ns' show ?thesis
      by (simp add: sameAtRule_def children_withNodes shell_def)
  qed
qed

lemma nestedUnder_wrapShells:
  "list_all (\<lambda>p. n_type p = TAtRule) chain \<Longrightarrow>
   nestedUnder chain node (ns @ [wrapShells chain node])"
proof (induction chain arbitrary: ns)
  case Nil
  show ?case by simp
next
  case (Cons p ps)
  then have p: "n_type p = TAtRule" and ps: "list_all (\<lambda>p. n_type p = TAtRule) ps"
    by simp_all
  have "appendChild (shell p) (wrapShells ps node) = withNodes (shell p) [wrapShells ps node]"
    using p by (simp add: appendChild_def shell_def children_withNodes)
  with Cons.IH [OF ps, of "[]"] p show ?case
    by (simp add: sameAtRule_def children_withNodes shell_def)
qed

lemma nestedUnder_place:
  assumes "list_all (\<lambda>p. n_type p = TAtRule) chain" and "place sz node chain st = Inr st'"
  shows "nestedUnder chain node (currentChunk st')"
proof (cases "chain = []")
  case True
  with assms(2) show ?thesis by (auto simp: place_def)
next
  case False
  with assms(2) obtain ns k where "rebuild sz chain node (Some (currentChunk st)) = Inr (ns, k)"
    and "currentChunk st' = ns"
    by (auto simp: place_def split: sum.splits prod.splits)
  with nestedUnder_rebuild [OF assms(1)] show ?thesis by simp
qed

lemma nestedUnder_placeWhole:
  assumes "list_all (\<lambda>p. n_type p = TAtRule) chain"
  shows "nestedUnder chain node (currentChunk (placeWhole sz node chain st))"
proof (cases "chain = []")
  case True
  then show ?thesis by (simp add: placeWhole_def Let_def)
next
  case False
  with nestedUnder_wrapShells [OF assms] show ?thesis by (simp add: placeWhole_def Let_def)
qed

text \<open>When a node would overflow a chunk that holds something, lines 121 to 124 and lines
  64 to 67 finish that chunk first; lines 102 to 111 leave the node in it, over the limit.\<close>

lemma normal_flow_starts_new_chunk:
  assumes "\<not> overflowingAtRule sz lim node (warn sz lim node st)"
    and "addNode sz lim node chain st = Inr st'"
    and "0 < lim" and "currentChunk st \<noteq> []" and "lim < currentChunkSize st + sz node"
  shows "finalChunks st' = finalChunks st @ [currentChunk st]"
proof -
  from assms(1,2)
  have "place sz node chain (flushIfOverflow sz lim node (warn sz lim node st)) = Inr st'"
    by (simp add: addNode_normal)
  then have "finalChunks st' = finalChunks (flushIfOverflow sz lim node (warn sz lim node st))"
    by (rule place_fields(1))
  with assms(3-5) show ?thesis by (simp add: flushIfOverflow_def startNewChunk_def)
qed

lemma whole_unit_starts_new_chunk:
  assumes "overflowingAtRule sz lim node (warn sz lim node st)" and "nonSplittable node"
    and "addNode sz lim node chain st = Inr st'" and "currentChunk st \<noteq> []"
  shows "finalChunks st' = finalChunks st @ [currentChunk st]"
  using assms by (auto simp: addNode_whole placeWhole_def Let_def startNewChunk_def)

lemma opaque_unit_stays_in_chunk:
  assumes "overflowingAtRule sz lim node (warn sz lim node st)" and "\<not> nonSplittable node"
    and "\<not> hasActualContent node" and "addNode sz lim node chain st = Inr st'"
  shows "finalChunks st' = finalChunks st \<and> currentChunk st' = currentChunk st @ [node]
         \<and> lim < currentChunkSize st'"
  using assms by (auto simp: addNode_opaque overflowingAtRule_def)

text \<open>
  Claim C2: under a positive limit a chunk is larger than the limit only when it holds a
  single node that is itself larger. The branch of lines 102 to 111 returns before the test
  of line 122, which the branch of lines 64 to 67 has in its own form. Under limit 40,
  \<^verbatim>\<open>.a{color:red}\<close> (13 bytes) and \<^verbatim>\<open>@view-transition{navigation:auto}\<close> (33 bytes) end in one
  chunk of 46 bytes, neither is larger than the limit, no shell is made, nothing is reported.
\<close>

theorem budget_failing_input:
  "Once cssBytes 40 [exRuleA, exViewTransition]
     = Inr \<lparr>chunks = [[exRuleA, exViewTransition]], reported = [], root = []\<rparr>
   \<and> chunkBytes [exRuleA, exViewTransition] = 46
   \<and> cssBytes exRuleA = 13 \<and> cssBytes exViewTransition = 33"
  by code_simp

text \<open>
  Claim C6: a node placed while the chain is not empty lies under shells for the whole
  chain. The same branch appends to the chunk root: its target
  \<^verbatim>\<open>parentShell && currentChunk.last ? currentChunk.last : currentChunk\<close> is the root, since
  \<^verbatim>\<open>parentShell\<close> is never set. Under limit 70, \<^verbatim>\<open>@view-transition\<close> is visited inside
  \<^verbatim>\<open>@media screen\<close> and lands beside the media shell, not in it.
\<close>

theorem nesting_failing_input:
  "Once cssBytes 70 [exRuleA, exScreen]
     = Inr \<lparr>chunks = [[exRuleA, AtRule ''media'' ''screen'' (Some [exRuleB]), exViewTransition]],
            reported = [], root = []\<rparr>
   \<and> \<not> nestedUnder [exScreen] exViewTransition
         [exRuleA, AtRule ''media'' ''screen'' (Some [exRuleB]), exViewTransition]"
  by code_simp

end
